theory Spec2Isabelle
  imports Main "HOL-Library.Sublist"
begin

section \<open>Values of the parsed documents\<close>

text \<open>
  \<^verbatim>\<open>scripts/export_to_csv.py\<close> reads documents with \<^verbatim>\<open>json.load\<close> and never
  computes with them: it looks keys up, tests truth values, takes lengths, iterates and
  finally hands the values to \<^verbatim>\<open>csv.DictWriter\<close>. A parsed document is a value of
  \<open>json\<close>. A Python \<^verbatim>\<open>dict\<close> keeps insertion order, so an object is the list of its
  items in that order (the keys of a parsed object are distinct). A Python \<^verbatim>\<open>float\<close>
  is represented by the text \<^verbatim>\<open>repr\<close> prints for it: the program only tests whether a
  float is zero and prints it. An int has at most 4300 digits: \<^verbatim>\<open>json.load\<close> raises on
  a longer one (Python 3.11 and later), so \<^verbatim>\<open>str\<close> prints every int of a document.
\<close>

datatype json =
    JNull
  | JBool bool
  | JInt int
  | JFloat string
  | JStr string
  | JList "json list"
  | JObj "(string \<times> json) list"

datatype error =
    AttributeError
  | TypeError
  | KeyError
  | IndexError
  | ValueError
  | LoadError
  | CsvError

type_synonym 'a result = "error + 'a"

definition rbind :: "'a result \<Rightarrow> ('a \<Rightarrow> 'b result) \<Rightarrow> 'b result" where
  "rbind m f = (case m of Inl e \<Rightarrow> Inl e | Inr x \<Rightarrow> f x)"

text \<open>The truth value Python gives a parsed value (\<^verbatim>\<open>if x:\<close>, \<^verbatim>\<open>x or y\<close>).\<close>

fun truthy :: "json \<Rightarrow> bool" where
  "truthy JNull = False"
| "truthy (JBool b) = b"
| "truthy (JInt i) = (i \<noteq> 0)"
| "truthy (JFloat r) = (r \<noteq> ''0.0'' \<and> r \<noteq> ''-0.0'')"
| "truthy (JStr s) = (s \<noteq> [])"
| "truthy (JList xs) = (xs \<noteq> [])"
| "truthy (JObj kvs) = (kvs \<noteq> [])"

text \<open>
  \<^verbatim>\<open>x.get(key, default)\<close>: only a dict has the method, every other parsed value
  raises \<^verbatim>\<open>AttributeError\<close>.
\<close>

definition dict_get :: "(string \<times> json) list \<Rightarrow> string \<Rightarrow> json \<Rightarrow> json" where
  "dict_get kvs k d = (case map_of kvs k of None \<Rightarrow> d | Some v \<Rightarrow> v)"

fun as_dict :: "json \<Rightarrow> (string \<times> json) list result" where
  "as_dict (JObj kvs) = Inr kvs"
| "as_dict _ = Inl AttributeError"

definition py_get :: "json \<Rightarrow> string \<Rightarrow> json \<Rightarrow> json result" where
  "py_get x k d = rbind (as_dict x) (\<lambda>kvs. Inr (dict_get kvs k d))"

text \<open>\<^verbatim>\<open>xs[i]\<close> on a list: a negative index counts from the end, out of range raises.\<close>

definition py_index :: "'a list \<Rightarrow> int \<Rightarrow> 'a result" where
  "py_index xs i =
     (if 0 \<le> i \<and> i < int (length xs) then Inr (xs ! nat i)
      else if i < 0 \<and> - int (length xs) \<le> i then Inr (xs ! nat (int (length xs) + i))
      else Inl IndexError)"

text \<open>\<^verbatim>\<open>s.split(c)\<close> for a separator of one character.\<close>

fun split :: "char \<Rightarrow> string \<Rightarrow> string list" where
  "split c [] = [[]]"
| "split c (x # xs) =
     (if x = c then [] # split c xs
      else (case split c xs of [] \<Rightarrow> [[x]] | w # ws \<Rightarrow> (x # w) # ws))"

section \<open>parse\_cluster\_info\<close>

text \<open>
  \<^verbatim>\<open>
  def parse_cluster_info(cluster_context: str) -> tuple[str, str]:
      if cluster_context.startswith('arn:aws:eks:'):
          parts = cluster_context.split(':')
          region = parts[3] if len(parts) > 3 else ''
          cluster_name = parts[5].split('/')[-1] if len(parts) > 5 else ''
          return region, cluster_name
      else:
          return '', cluster_context
  \<close>
  The callers pass whatever \<^verbatim>\<open>args.cluster_context\<close> holds, so the argument is a
  parsed value; \<^verbatim>\<open>startswith\<close> exists on strings only.
\<close>

definition parse_cluster_info_str :: "string \<Rightarrow> (string \<times> string) result" where
  "parse_cluster_info_str cluster_context =
     (if prefix ''arn:aws:eks:'' cluster_context then
        (let parts = split CHR '':'' cluster_context in
         rbind (if length parts > 3 then py_index parts 3 else Inr [])
           (\<lambda>region.
         rbind (if length parts > 5
                then rbind (py_index parts 5) (\<lambda>p. py_index (split CHR ''/'' p) (- 1))
                else Inr [])
           (\<lambda>cluster_name. Inr (region, cluster_name))))
      else Inr ([], cluster_context))"

fun parse_cluster_info :: "json \<Rightarrow> (string \<times> string) result" where
  "parse_cluster_info (JStr s) = parse_cluster_info_str s"
| "parse_cluster_info _ = Inl AttributeError"

text \<open>The string \<^verbatim>\<open>arn:aws:eks:<region>:<acct>:cluster/<name>\<close>.\<close>

definition eks_arn :: "string \<Rightarrow> string \<Rightarrow> string \<Rightarrow> string" where
  "eks_arn region acct name =
     ''arn:aws:eks:'' @ region @ '':'' @ acct @ '':cluster/'' @ name"

section \<open>Python operations the exporters use\<close>

text \<open>
  What \<^verbatim>\<open>for x in v\<close> and \<^verbatim>\<open>sep.join(v)\<close> iterate over: the elements of a list,
  the characters of a string, the keys of a dict; anything else raises
  \<^verbatim>\<open>TypeError\<close>.
\<close>

fun py_iter :: "json \<Rightarrow> json list result" where
  "py_iter (JList xs) = Inr xs"
| "py_iter (JStr s) = Inr (map (\<lambda>c. JStr [c]) s)"
| "py_iter (JObj kvs) = Inr (map (\<lambda>kv. JStr (fst kv)) kvs)"
| "py_iter _ = Inl TypeError"

text \<open>\<^verbatim>\<open>v[0]\<close>: the keys of a parsed dict are strings, so \<^verbatim>\<open>0\<close> is never one.\<close>

fun py_first :: "json \<Rightarrow> json result" where
  "py_first (JList xs) = py_index xs 0"
| "py_first (JStr s) = rbind (py_index s 0) (\<lambda>c. Inr (JStr [c]))"
| "py_first (JObj kvs) = Inl KeyError"
| "py_first _ = Inl TypeError"

fun py_len :: "json \<Rightarrow> nat result" where
  "py_len (JList xs) = Inr (length xs)"
| "py_len (JStr s) = Inr (length s)"
| "py_len (JObj kvs) = Inr (length kvs)"
| "py_len _ = Inl TypeError"

text \<open>\<^verbatim>\<open>d.items()\<close>: a method of dicts only.\<close>

fun py_items :: "json \<Rightarrow> (string \<times> json) list result" where
  "py_items (JObj kvs) = Inr kvs"
| "py_items _ = Inl AttributeError"

fun join :: "string \<Rightarrow> string list \<Rightarrow> string" where
  "join sep [] = []"
| "join sep [x] = x"
| "join sep (x # y # ys) = x @ sep @ join sep (y # ys)"

fun str_items :: "json list \<Rightarrow> string list result" where
  "str_items [] = Inr []"
| "str_items (JStr s # xs) = rbind (str_items xs) (\<lambda>ss. Inr (s # ss))"
| "str_items (_ # xs) = Inl TypeError"

definition py_join :: "string \<Rightarrow> json \<Rightarrow> string result" where
  "py_join sep v =
     rbind (py_iter v) (\<lambda>xs. rbind (str_items xs) (\<lambda>ss. Inr (join sep ss)))"

text \<open>
  A row is a Python dict from column name to value. \<^verbatim>\<open>row.update({...})\<close> stores the
  items in order; a key that is already there keeps its place.
\<close>

type_synonym row = "(string \<times> json) list"

fun dict_set :: "string \<Rightarrow> json \<Rightarrow> row \<Rightarrow> row" where
  "dict_set k v [] = [(k, v)]"
| "dict_set k v (p # ps) = (if fst p = k then (k, v) # ps else p # dict_set k v ps)"

definition dict_update :: "row \<Rightarrow> row \<Rightarrow> row" where
  "dict_update r new = fold (\<lambda>kv acc. dict_set (fst kv) (snd kv) acc) new r"

section \<open>The fields both exporters read from a document\<close>

text \<open>
  \<^verbatim>\<open>
  cluster_context = data.get('args', {}).get('cluster_context', '')
  if cluster_context:
      region, cluster_name = parse_cluster_info(cluster_context)
  else:
      cluster_name = data.get('cluster', '')
      region = ''
  \<close>
\<close>

definition cluster_identity :: "json \<Rightarrow> (json \<times> json) result" where
  "cluster_identity data =
     rbind (py_get data ''args'' (JObj [])) (\<lambda>a.
     rbind (py_get a ''cluster_context'' (JStr [])) (\<lambda>cluster_context.
       if truthy cluster_context then
         rbind (parse_cluster_info cluster_context)
           (\<lambda>rc. Inr (JStr (fst rc), JStr (snd rc)))
       else
         rbind (py_get data ''cluster'' (JStr [])) (\<lambda>cluster_name.
           Inr (JStr [], cluster_name))))"

text \<open>\<^verbatim>\<open>data.get(k1, '') or data.get(k2, '')\<close>\<close>

definition get_or :: "json \<Rightarrow> string \<Rightarrow> string \<Rightarrow> json \<Rightarrow> json result" where
  "get_or data k1 k2 d =
     rbind (py_get data k1 d) (\<lambda>v. if truthy v then Inr v else py_get data k2 d)"

definition run_timestamp :: "json \<Rightarrow> json result" where
  "run_timestamp data = get_or data ''timestamp'' ''start_time'' (JStr [])"

definition run_elapsed :: "json \<Rightarrow> json result" where
  "run_elapsed data = get_or data ''install_time'' ''elapsed_time'' (JStr [])"

text \<open>
  \<^verbatim>\<open>
  namespaces = args.get('namespaces', [])
  if not namespaces and args.get('namespace'):
      namespaces = [args.get('namespace')]
  ... ','.join(namespaces) if namespaces else ''
  \<close>
\<close>

definition namespaces_of :: "json \<Rightarrow> json result" where
  "namespaces_of args =
     rbind (py_get args ''namespaces'' (JList [])) (\<lambda>namespaces.
       if \<not> truthy namespaces then
         rbind (py_get args ''namespace'' JNull) (\<lambda>ns.
           if truthy ns then Inr (JList [ns]) else Inr namespaces)
       else Inr namespaces)"

definition namespace_str :: "json \<Rightarrow> json result" where
  "namespace_str namespaces =
     (if truthy namespaces
      then rbind (py_join '','' namespaces) (\<lambda>s. Inr (JStr s))
      else Inr (JStr []))"

section \<open>The summary row of one document\<close>

text \<open>
  \<^verbatim>\<open>postprocessed = data.get('postprocessed', {}) or data.get('postprocessed_data', {})\<close>
\<close>

definition postprocessed_block :: "json \<Rightarrow> json result" where
  "postprocessed_block data = get_or data ''postprocessed'' ''postprocessed_data'' (JObj [])"

text \<open>
  The dict given to the first \<^verbatim>\<open>row.update\<close>. Each value is
  \<^verbatim>\<open>postprocessed.get(key, '')\<close>, so a block that is not a dict raises at the first
  of them; the last four read the keys the producer misspells.
\<close>

definition postprocessed_items :: "(string \<times> json) list \<Rightarrow> row" where
  "postprocessed_items p =
     [(''scale_direction'', dict_get p ''scale_direction'' (JStr [])),
      (''scale_amount'', dict_get p ''scale_amount'' (JStr [])),
      (''scale_percentage'', dict_get p ''scale_percentage'' (JStr [])),
      (''jain_fairness_index_mean'', dict_get p ''jain_fairness_index_mean'' (JStr [])),
      (''jain_fairness_index_median'', dict_get p ''jain_fairness_index_median'' (JStr [])),
      (''coefficient_of_variation_mean'', dict_get p ''coefficient_of_variation_mean'' (JStr [])),
      (''coefficient_of_variation_median'', dict_get p ''coefficient_of_variation_median'' (JStr [])),
      (''gini_coefficient_mean'', dict_get p ''gini_coefficient_mean'' (JStr [])),
      (''gini_coefficient_median'', dict_get p ''gini_coefficient_median'' (JStr [])),
      (''node_skew_mean'', dict_get p ''node_skew_mean'' (JStr [])),
      (''node_skew_median'', dict_get p ''node_skew_median'' (JStr [])),
      (''node_skew_max'', dict_get p ''node_skew_max'' (JStr [])),
      (''node_skew_percentage_mean'', dict_get p ''node_skew_percentage_mean'' (JStr [])),
      (''node_skew_percentage_median'', dict_get p ''node_skew_percentage_median'' (JStr [])),
      (''node_skew_percentage_max'', dict_get p ''node_skew_percentage_max'' (JStr [])),
      (''nodes_used_avg'', dict_get p ''nosed_used_avg'' (JStr [])),
      (''nodes_used_median'', dict_get p ''nosed_used_median'' (JStr [])),
      (''nodes_used_max'', dict_get p ''nosed_used_max'' (JStr [])),
      (''nodes_used_min'', dict_get p ''nosed_used_min'' (JStr []))]"

text \<open>
  \<^verbatim>\<open>
  measurements = data.get('measurements', []) or data.get('measurements_taken', [])
  cluster_data = {}
  deployment_count = 0
  if measurements:
      cluster_data = measurements[0].get('cluster', {})
      deployment_count = len(measurements[0].get('deployments', {}))
  else:
      measurements_pre = data.get('measurements_pre', {})
      measurements_post = data.get('measurements_post', {})
      cluster_data = measurements_post.get('cluster', {}) or measurements_pre.get('cluster', {})
      deployment_count = len(measurements_post.get('deployments', {}))
  \<close>
\<close>

definition measurements_of :: "json \<Rightarrow> json result" where
  "measurements_of data = get_or data ''measurements'' ''measurements_taken'' (JList [])"

definition cluster_counts :: "json \<Rightarrow> (json \<times> nat) result" where
  "cluster_counts data =
     rbind (measurements_of data) (\<lambda>measurements.
       if truthy measurements then
         rbind (py_first measurements) (\<lambda>m0.
         rbind (py_get m0 ''cluster'' (JObj [])) (\<lambda>cluster_data.
         rbind (py_first measurements) (\<lambda>m1.
         rbind (py_get m1 ''deployments'' (JObj [])) (\<lambda>deployments.
         rbind (py_len deployments) (\<lambda>deployment_count.
           Inr (cluster_data, deployment_count))))))
       else
         rbind (py_get data ''measurements_pre'' (JObj [])) (\<lambda>measurements_pre.
         rbind (py_get data ''measurements_post'' (JObj [])) (\<lambda>measurements_post.
         rbind (py_get measurements_post ''cluster'' (JObj [])) (\<lambda>c.
         rbind (if truthy c then Inr c else py_get measurements_pre ''cluster'' (JObj []))
           (\<lambda>cluster_data.
         rbind (py_get measurements_post ''deployments'' (JObj [])) (\<lambda>deployments.
         rbind (py_len deployments) (\<lambda>deployment_count.
           Inr (cluster_data, deployment_count))))))))"

text \<open>\<^verbatim>\<open>deployment_count if deployment_count else ''\<close>\<close>

definition count_field :: "nat \<Rightarrow> json" where
  "count_field deployment_count =
     (if deployment_count \<noteq> 0 then JInt (int deployment_count) else JStr [])"

text \<open>The body of the loop of \<^verbatim>\<open>export_summary_csv\<close>, for one loaded document.\<close>

definition summary_row :: "json \<Rightarrow> row result" where
  "summary_row data =
     rbind (cluster_identity data) (\<lambda>ident.
     rbind (run_timestamp data) (\<lambda>timestamp.
     rbind (run_elapsed data) (\<lambda>elapsed.
     rbind (py_get data ''args'' (JObj [])) (\<lambda>args.
     rbind (py_get args ''scenario'' (JStr [])) (\<lambda>scenario.
     rbind (py_get args ''action'' (JStr [])) (\<lambda>action.
     rbind (namespaces_of args) (\<lambda>namespaces.
     rbind (namespace_str namespaces) (\<lambda>joined.
     rbind (postprocessed_block data) (\<lambda>postprocessed.
     rbind (as_dict postprocessed) (\<lambda>p.
     rbind (cluster_counts data) (\<lambda>cc.
     rbind (as_dict (fst cc)) (\<lambda>cluster_data.
       Inr (dict_update
             (dict_update
               [(''region'', fst ident),
                (''cluster'', snd ident),
                (''timestamp'', timestamp),
                (''scenario'', scenario),
                (''action'', action),
                (''namespaces'', joined),
                (''elapsed_time'', elapsed)]
               (postprocessed_items p))
             [(''node_count'', dict_get cluster_data ''node_count'' (JStr [])),
              (''eligible_node_count'', dict_get cluster_data ''eligible_node_count'' (JStr [])),
              (''deployment_count'', count_field (snd cc))])))))))))))))"

section \<open>The deployment rows of one document\<close>

record run_fields =
  r_region :: json
  r_cluster_name :: json
  r_namespace_str :: json
  r_timestamp :: json
  r_scenario :: json
  r_action :: json

text \<open>The dict built in the innermost loop of \<^verbatim>\<open>export_deployments_csv\<close>.\<close>

definition deployment_row ::
  "run_fields \<Rightarrow> json \<Rightarrow> string \<Rightarrow> (string \<times> json) list \<Rightarrow> row" where
  "deployment_row run measurement_timestamp deployment_name deployment_data =
     [(''region'', r_region run),
      (''cluster'', r_cluster_name run),
      (''namespace'', r_namespace_str run),
      (''timestamp'', r_timestamp run),
      (''measurement_timestamp'', measurement_timestamp),
      (''scenario'', r_scenario run),
      (''action'', r_action run),
      (''deployment_name'', dict_get deployment_data ''name'' (JStr deployment_name)),
      (''total_pods'', dict_get deployment_data ''total_pods'' (JStr [])),
      (''nodes_used'', dict_get deployment_data ''nodes_used'' (JStr [])),
      (''max_pods'', dict_get deployment_data ''max_pods'' (JStr [])),
      (''min_pods'', dict_get deployment_data ''min_pods'' (JStr [])),
      (''node_skew'', dict_get deployment_data ''node_skew'' (JStr [])),
      (''node_skew_percentage'', dict_get deployment_data ''node_skew_percentage'' (JStr [])),
      (''mean_pods'', dict_get deployment_data ''mean_pods'' (JStr [])),
      (''median_pods'', dict_get deployment_data ''median_pods'' (JStr [])),
      (''coefficient_of_variation'', dict_get deployment_data ''coefficient_of_variation'' (JStr [])),
      (''gini_coefficient'', dict_get deployment_data ''gini_coefficient'' (JStr [])),
      (''jain_fairness_index'', dict_get deployment_data ''jain_fairness_index'' (JStr []))]"

text \<open>
  \<^verbatim>\<open>
  for deployment_name, deployment_data in deployments.items():
      name = deployment_data.get('name', deployment_name)
      row = {...}
      rows.append(row)
  \<close>
  \<^verbatim>\<open>deployment_data.get\<close> raises unless the value is a dict.
\<close>

fun deployments_loop ::
  "run_fields \<Rightarrow> json \<Rightarrow> (string \<times> json) list \<Rightarrow> row list \<Rightarrow> row list result" where
  "deployments_loop run mts [] rows = Inr rows"
| "deployments_loop run mts (item # rest) rows =
     rbind (as_dict (snd item)) (\<lambda>deployment_data.
       deployments_loop run mts rest
         (rows @ [deployment_row run mts (fst item) deployment_data]))"

text \<open>
  \<^verbatim>\<open>
  for measurement in measurements:
      deployments = measurement.get('deployments', {})
      measurement_timestamp = measurement.get('timestamp', timestamp)
      for deployment_name, deployment_data in deployments.items(): ...
  \<close>
\<close>

fun measurements_loop :: "run_fields \<Rightarrow> json list \<Rightarrow> row list \<Rightarrow> row list result" where
  "measurements_loop run [] rows = Inr rows"
| "measurements_loop run (measurement # rest) rows =
     rbind (py_get measurement ''deployments'' (JObj [])) (\<lambda>deployments.
     rbind (py_get measurement ''timestamp'' (r_timestamp run)) (\<lambda>measurement_timestamp.
     rbind (py_items deployments) (\<lambda>items.
     rbind (deployments_loop run measurement_timestamp items rows) (\<lambda>rows'.
       measurements_loop run rest rows'))))"

text \<open>
  \<^verbatim>\<open>
  measurements = data.get('measurements', []) or data.get('measurements_taken', [])
  if not measurements:
      measurements_post = data.get('measurements_post')
      if measurements_post:
          measurements = [measurements_post]
  \<close>
\<close>

definition deployment_measurements :: "json \<Rightarrow> json result" where
  "deployment_measurements data =
     rbind (measurements_of data) (\<lambda>measurements.
       if \<not> truthy measurements then
         rbind (py_get data ''measurements_post'' JNull) (\<lambda>measurements_post.
           if truthy measurements_post then Inr (JList [measurements_post])
           else Inr measurements)
       else Inr measurements)"

text \<open>The fields of the run, read before the measurements, in the order of the source.\<close>

definition deployment_run_fields :: "json \<Rightarrow> run_fields result" where
  "deployment_run_fields data =
     rbind (run_timestamp data) (\<lambda>ts.
     rbind (cluster_identity data) (\<lambda>ident.
     rbind (py_get data ''args'' (JObj [])) (\<lambda>args.
     rbind (py_get args ''scenario'' (JStr [])) (\<lambda>sc.
     rbind (py_get args ''action'' (JStr [])) (\<lambda>ac.
     rbind (namespaces_of args) (\<lambda>namespaces.
     rbind (namespace_str namespaces) (\<lambda>joined.
       Inr \<lparr>r_region = fst ident, r_cluster_name = snd ident,
            r_namespace_str = joined, r_timestamp = ts, r_scenario = sc,
            r_action = ac\<rparr>)))))))"

text \<open>
  The body of the loop over the files in \<^verbatim>\<open>export_deployments_csv\<close>: the rows
  collected so far go in, the rows after this document come out.
\<close>

definition deployment_doc :: "json \<Rightarrow> row list \<Rightarrow> row list result" where
  "deployment_doc data rows =
     rbind (deployment_run_fields data) (\<lambda>run.
     rbind (deployment_measurements data) (\<lambda>measurements.
     rbind (py_iter measurements) (\<lambda>ms.
       measurements_loop run ms rows)))"

section \<open>Writing a table\<close>

text \<open>
  \<^verbatim>\<open>csv.writer\<close> writes a string as it is, \<^verbatim>\<open>None\<close> as the empty field and any
  other value as \<^verbatim>\<open>str\<close> prints it. The next functions are \<^verbatim>\<open>str\<close> and
  \<^verbatim>\<open>repr\<close> on parsed values; a character is a code point below 256.
\<close>

definition digit_char :: "nat \<Rightarrow> char" where
  "digit_char n = char_of (48 + n)"

fun str_nat :: "nat \<Rightarrow> string" where
  "str_nat n =
     (if n < 10 then [digit_char n] else str_nat (n div 10) @ [digit_char (n mod 10)])"

declare str_nat.simps [simp del]

definition str_int :: "int \<Rightarrow> string" where
  "str_int i = (if i < 0 then CHR ''-'' # str_nat (nat (- i)) else str_nat (nat i))"

definition hex_digit :: "nat \<Rightarrow> char" where
  "hex_digit n = (if n < 10 then char_of (48 + n) else char_of (87 + n))"

definition printable :: "char \<Rightarrow> bool" where
  "printable c =
     (let n = (of_char c :: nat) in (32 \<le> n \<and> n < 127) \<or> (161 \<le> n \<and> n \<noteq> 173))"

definition repr_char :: "char \<Rightarrow> char \<Rightarrow> string" where
  "repr_char quote c =
     (if c = quote \<or> c = CHR 0x5C then [CHR 0x5C, c]
      else if c = CHR 0x09 then [CHR 0x5C, CHR ''t'']
      else if c = CHR 0x0A then [CHR 0x5C, CHR ''n'']
      else if c = CHR 0x0D then [CHR 0x5C, CHR ''r'']
      else if \<not> printable c then
        [CHR 0x5C, CHR ''x'', hex_digit ((of_char c :: nat) div 16),
         hex_digit ((of_char c :: nat) mod 16)]
      else [c])"

definition repr_str :: "string \<Rightarrow> string" where
  "repr_str s =
     (let quote = (if CHR 0x27 \<in> set s \<and> CHR 0x22 \<notin> set s then CHR 0x22 else CHR 0x27)
      in quote # concat (map (repr_char quote) s) @ [quote])"

fun py_repr :: "json \<Rightarrow> string" where
  "py_repr JNull = ''None''"
| "py_repr (JBool b) = (if b then ''True'' else ''False'')"
| "py_repr (JInt i) = str_int i"
| "py_repr (JFloat r) = r"
| "py_repr (JStr s) = repr_str s"
| "py_repr (JList xs) = ''['' @ join '', '' (map py_repr xs) @ '']''"
| "py_repr (JObj kvs) =
     ''{'' @ join '', '' (map (\<lambda>kv. repr_str (fst kv) @ '': '' @ py_repr (snd kv)) kvs) @ ''}''"

text \<open>The text of one field, before quoting.\<close>

fun field_text :: "json \<Rightarrow> string" where
  "field_text JNull = []"
| "field_text (JStr s) = s"
| "field_text v = py_repr v"

text \<open>
  The default dialect: delimiter comma, quote character \<^verbatim>\<open>"\<close> doubled inside a
  quoted field, minimal quoting (a field is quoted when it holds the delimiter, the
  quote character, a carriage return or a line feed), line terminator CR LF. A record
  whose text would be empty (one empty field) is written as two quote characters.
\<close>

definition special_char :: "char \<Rightarrow> bool" where
  "special_char c = (c = CHR '','' \<or> c = CHR 0x22 \<or> c = CHR 0x0D \<or> c = CHR 0x0A)"

definition csv_field :: "string \<Rightarrow> string" where
  "csv_field s =
     (if list_ex special_char s
      then CHR 0x22 # concat (map (\<lambda>c. if c = CHR 0x22 then [c, c] else [c]) s) @ [CHR 0x22]
      else s)"

definition csv_record :: "string list \<Rightarrow> string" where
  "csv_record cells =
     (let line = join '','' (map csv_field cells)
      in (if cells \<noteq> [] \<and> line = [] then [CHR 0x22, CHR 0x22] else line)
         @ [CHR 0x0D, CHR 0x0A])"

text \<open>
  \<^verbatim>\<open>csv.DictWriter(f, fieldnames=fieldnames)\<close> with its defaults: a row with a key
  that is no field name raises \<^verbatim>\<open>ValueError\<close>, a missing key is written empty.
\<close>

definition dict_to_list :: "string list \<Rightarrow> row \<Rightarrow> json list result" where
  "dict_to_list fieldnames rowdict =
     (if list_ex (\<lambda>k. k \<notin> set fieldnames) (map fst rowdict) then Inl ValueError
      else Inr (map (\<lambda>k. dict_get rowdict k (JStr [])) fieldnames))"

fun writerows :: "string list \<Rightarrow> row list \<Rightarrow> string result" where
  "writerows fieldnames [] = Inr []"
| "writerows fieldnames (r # rs) =
     rbind (dict_to_list fieldnames r) (\<lambda>vs.
     rbind (writerows fieldnames rs) (\<lambda>rest.
       Inr (csv_record (map field_text vs) @ rest)))"

text \<open>
  The state the exporters change: the files written (path to content; the files are
  opened with \<^verbatim>\<open>newline=''\<close>, so the text is stored as written) and the log. An
  exception ends the run, so a result is either the error or the state reached.
\<close>

datatype level = INFO | WARNING | ERROR

record world =
  files :: "string \<rightharpoonup> string"
  log :: "(level \<times> string) list"

definition logger :: "level \<Rightarrow> string \<Rightarrow> world \<Rightarrow> world" where
  "logger l msg w = w\<lparr>log := log w @ [(l, msg)]\<rparr>"

text \<open>
  \<^verbatim>\<open>
  fieldnames = list(rows[0].keys())
  with open(output_file, 'w', newline='') as f:
      writer = csv.DictWriter(f, fieldnames=fieldnames)
      writer.writeheader()
      writer.writerows(rows)
  \<close>
  for a non-empty list of rows.
\<close>

definition write_csv :: "string \<Rightarrow> row \<Rightarrow> row list \<Rightarrow> world \<Rightarrow> world result" where
  "write_csv output_file first_row rows w =
     (let fieldnames = map fst first_row in
      rbind (writerows fieldnames rows) (\<lambda>body.
        Inr (w\<lparr>files := (files w)(output_file \<mapsto> csv_record fieldnames @ body)\<rparr>)))"

section \<open>The two exporters\<close>

text \<open>
  An exporter gets, for each path of \<^verbatim>\<open>json_files\<close> in order, what
  \<^verbatim>\<open>open\<close> and \<^verbatim>\<open>json.load\<close> give for it: the parsed document, or the exception
  they raise.
\<close>

fun summary_loop :: "json result list \<Rightarrow> row list \<Rightarrow> row list result" where
  "summary_loop [] rows = Inr rows"
| "summary_loop (json_file # rest) rows =
     rbind json_file (\<lambda>data.
     rbind (summary_row data) (\<lambda>row.
       summary_loop rest (rows @ [row])))"

definition export_summary_csv :: "json result list \<Rightarrow> string \<Rightarrow> world \<Rightarrow> world result" where
  "export_summary_csv json_files output_file w =
     rbind (summary_loop json_files []) (\<lambda>rows.
       case rows of
         first_row # _ \<Rightarrow>
           rbind (write_csv output_file first_row rows w) (\<lambda>w'.
             Inr (logger INFO
                   (''Wrote '' @ str_nat (length rows) @ '' summary rows to '' @ output_file) w'))
       | [] \<Rightarrow> Inr (logger WARNING ''No data to write to summary CSV'' w))"

fun deployments_files_loop :: "json result list \<Rightarrow> row list \<Rightarrow> row list result" where
  "deployments_files_loop [] rows = Inr rows"
| "deployments_files_loop (json_file # rest) rows =
     rbind json_file (\<lambda>data.
     rbind (deployment_doc data rows) (\<lambda>rows'.
       deployments_files_loop rest rows'))"

definition export_deployments_csv :: "json result list \<Rightarrow> string \<Rightarrow> world \<Rightarrow> world result" where
  "export_deployments_csv json_files output_file w =
     rbind (deployments_files_loop json_files []) (\<lambda>rows.
       case rows of
         first_row # _ \<Rightarrow>
           rbind (write_csv output_file first_row rows w) (\<lambda>w'.
             Inr (logger INFO
                   (''Wrote '' @ str_nat (length rows) @ '' deployment rows to '' @ output_file)
                   w'))
       | [] \<Rightarrow> Inr (logger WARNING ''No data to write to deployments CSV'' w))"

text \<open>
  The end of \<^verbatim>\<open>main\<close>, once the files are found and the two output paths are
  built:
  \<^verbatim>\<open>
  export_both = not args.summary_only and not args.deployments_only
  if args.summary_only or export_both:
      export_summary_csv(json_files, summary_file)
  if args.deployments_only or export_both:
      export_deployments_csv(json_files, deployments_file)
  logger.info("Export complete!")
  \<close>
\<close>

definition run_exports ::
  "bool \<Rightarrow> bool \<Rightarrow> json result list \<Rightarrow> string \<Rightarrow> string \<Rightarrow> world \<Rightarrow> world result" where
  "run_exports summary_only deployments_only json_files summary_file deployments_file w =
     (let export_both = (\<not> summary_only \<and> \<not> deployments_only) in
      rbind (if summary_only \<or> export_both
             then export_summary_csv json_files summary_file w else Inr w) (\<lambda>w1.
      rbind (if deployments_only \<or> export_both
             then export_deployments_csv json_files deployments_file w1 else Inr w1) (\<lambda>w2.
        Inr (logger INFO ''Export complete!'' w2))))"

section \<open>Views of a document used to state the properties\<close>

text \<open>
  The items of a value that is a dict (none for any other value), the deployments
  mapping of a measurement and the timestamp a measurement carries, with the run's
  timestamp as the default of \<^verbatim>\<open>measurement.get('timestamp', timestamp)\<close>.
\<close>

fun obj_items :: "json \<Rightarrow> (string \<times> json) list" where
  "obj_items (JObj kvs) = kvs"
| "obj_items _ = []"

definition deployments_of :: "json \<Rightarrow> (string \<times> json) list" where
  "deployments_of measurement =
     obj_items (dict_get (obj_items measurement) ''deployments'' (JObj []))"

definition measurement_timestamp_of :: "json \<Rightarrow> json \<Rightarrow> json" where
  "measurement_timestamp_of run_ts measurement =
     (case map_of (obj_items measurement) ''timestamp'' of Some t \<Rightarrow> t | None \<Rightarrow> run_ts)"

text \<open>The row of one deployment entry, and the rows of one measurement, in order.\<close>

definition row_of :: "run_fields \<Rightarrow> json \<Rightarrow> string \<times> json \<Rightarrow> row" where
  "row_of run mts item = deployment_row run mts (fst item) (obj_items (snd item))"

definition measurement_rows :: "run_fields \<Rightarrow> json \<Rightarrow> row list" where
  "measurement_rows run m =
     map (row_of run (measurement_timestamp_of (r_timestamp run) m)) (deployments_of m)"

text \<open>A measurement the loops accept: a dict whose deployments mapping is a dict of dicts.\<close>

fun is_obj :: "json \<Rightarrow> bool" where
  "is_obj (JObj kvs) = True"
| "is_obj _ = False"

definition measurement_ok :: "json \<Rightarrow> bool" where
  "measurement_ok m =
     (is_obj m \<and> is_obj (dict_get (obj_items m) ''deployments'' (JObj []))
      \<and> list_all is_obj (map snd (deployments_of m)))"

text \<open>
  The run fields and the measurements collection of a document, as
  \<^verbatim>\<open>export_deployments_csv\<close> reads them (\<open>no_run\<close> and no measurement when reading
  them raises).
\<close>

definition no_run :: run_fields where
  "no_run = \<lparr>r_region = JNull, r_cluster_name = JNull, r_namespace_str = JNull,
            r_timestamp = JNull, r_scenario = JNull, r_action = JNull\<rparr>"

definition doc_run :: "json \<Rightarrow> run_fields" where
  "doc_run data = (case deployment_run_fields data of Inr run \<Rightarrow> run | Inl e \<Rightarrow> no_run)"

definition doc_measurements :: "json \<Rightarrow> json list" where
  "doc_measurements data =
     (case rbind (deployment_measurements data) py_iter of Inr ms \<Rightarrow> ms | Inl e \<Rightarrow> [])"

text \<open>
  The (run, measurement, deployment) triples of a list of loaded documents, in the
  order of the files, of the measurements of a run and of the entries of a deployments
  mapping; and the row of a triple.
\<close>

definition doc_triples :: "json \<Rightarrow> (json \<times> json \<times> string \<times> json) list" where
  "doc_triples data =
     concat (map (\<lambda>m. map (\<lambda>item. (data, m, item)) (deployments_of m))
              (doc_measurements data))"

definition triples :: "json result list \<Rightarrow> (json \<times> json \<times> string \<times> json) list" where
  "triples json_files =
     concat (map (\<lambda>f. case f of Inl e \<Rightarrow> [] | Inr data \<Rightarrow> doc_triples data) json_files)"

definition triple_row :: "json \<times> json \<times> string \<times> json \<Rightarrow> row" where
  "triple_row t =
     (case t of (data, m, item) \<Rightarrow>
        row_of (doc_run data)
          (measurement_timestamp_of (r_timestamp (doc_run data)) m) item)"

text \<open>
  The run-level timestamp in the words of the specification: the \<^verbatim>\<open>timestamp\<close>
  field, else the \<^verbatim>\<open>start_time\<close> field, else empty.
\<close>

definition timestamp_field :: "(string \<times> json) list \<Rightarrow> json" where
  "timestamp_field kvs =
     (let start_or_empty = (case map_of kvs ''start_time'' of Some s \<Rightarrow> s | None \<Rightarrow> JStr [])
      in case map_of kvs ''timestamp'' of
           Some t \<Rightarrow> if truthy t then t else start_or_empty
         | None \<Rightarrow> start_or_empty)"

text \<open>The columns of the two tables, in the order of section 6 of the specification.\<close>

definition summary_columns :: "string list" where
  "summary_columns =
     [''region'', ''cluster'', ''timestamp'', ''scenario'', ''action'', ''namespaces'',
      ''elapsed_time'', ''scale_direction'', ''scale_amount'', ''scale_percentage'',
      ''jain_fairness_index_mean'', ''jain_fairness_index_median'',
      ''coefficient_of_variation_mean'', ''coefficient_of_variation_median'',
      ''gini_coefficient_mean'', ''gini_coefficient_median'', ''node_skew_mean'',
      ''node_skew_median'', ''node_skew_max'', ''node_skew_percentage_mean'',
      ''node_skew_percentage_median'', ''node_skew_percentage_max'', ''nodes_used_avg'',
      ''nodes_used_median'', ''nodes_used_max'', ''nodes_used_min'', ''node_count'',
      ''eligible_node_count'', ''deployment_count'']"

definition deployment_columns :: "string list" where
  "deployment_columns =
     [''region'', ''cluster'', ''namespace'', ''timestamp'', ''measurement_timestamp'',
      ''scenario'', ''action'', ''deployment_name'', ''total_pods'', ''nodes_used'',
      ''max_pods'', ''min_pods'', ''node_skew'', ''node_skew_percentage'', ''mean_pods'',
      ''median_pods'', ''coefficient_of_variation'', ''gini_coefficient'',
      ''jain_fairness_index'']"

section \<open>Example documents\<close>

text \<open>
  A document in the new format with two measurements (two deployments, then one) and a
  \<^verbatim>\<open>measurements_taken\<close> list beside it, and two legacy documents: one with both
  \<^verbatim>\<open>measurements_pre\<close> and \<^verbatim>\<open>measurements_post\<close>, one with
  \<^verbatim>\<open>measurements_pre\<close> only.
\<close>

definition doc_new :: json where
  "doc_new =
     JObj [(''cluster'', JStr ''c1''), (''timestamp'', JStr ''t1''),
       (''postprocessed'', JObj [(''nosed_used_avg'', JInt 7), (''nosed_used_median'', JInt 6),
          (''nosed_used_max'', JInt 9), (''nosed_used_min'', JInt 2)]),
       (''measurements'', JList [
          JObj [(''timestamp'', JStr ''m1''),
                (''cluster'', JObj [(''node_count'', JInt 3)]),
                (''deployments'',
                   JObj [(''a'', JObj [(''total_pods'', JInt 4)]), (''b'', JObj [])])],
          JObj [(''deployments'', JObj [(''a'', JObj [(''name'', JStr ''x,y'')])])]]),
       (''measurements_taken'', JList [JObj [(''deployments'', JObj [(''z'', JObj [])])]])]"

definition doc_legacy :: json where
  "doc_legacy =
     JObj [(''args'', JObj [(''cluster_context'', JStr ''arn:aws:eks:us-east-1:1:cluster/c2'')]),
       (''start_time'', JStr ''t2''),
       (''measurements_pre'',
          JObj [(''cluster'', JObj [(''node_count'', JInt 9)]),
                (''deployments'', JObj [(''p'', JObj [])])]),
       (''measurements_post'',
          JObj [(''cluster'', JObj [(''node_count'', JInt 8), (''eligible_node_count'', JInt 5)]),
                (''deployments'', JObj [(''q'', JObj [])])])]"

definition doc_pre_only :: json where
  "doc_pre_only =
     JObj [(''cluster'', JStr ''c3''),
       (''measurements_pre'',
          JObj [(''cluster'', JObj [(''node_count'', JInt 9)]),
                (''deployments'', JObj [(''p'', JObj [])])])]"

text \<open>
  The summary row as the list of its items: the seven items of the dict literal, the
  nineteen of the first \<^verbatim>\<open>row.update\<close>, the three of the second.
\<close>

definition summary_items ::
  "json \<times> json \<Rightarrow> json \<Rightarrow> json \<Rightarrow> json \<Rightarrow> json \<Rightarrow> json \<Rightarrow> row \<Rightarrow> row \<Rightarrow> nat \<Rightarrow> row" where
  "summary_items ident ts sc ac joined el p cd n =
     [(''region'', fst ident), (''cluster'', snd ident), (''timestamp'', ts),
      (''scenario'', sc), (''action'', ac), (''namespaces'', joined), (''elapsed_time'', el)]
     @ postprocessed_items p
     @ [(''node_count'', dict_get cd ''node_count'' (JStr [])),
        (''eligible_node_count'', dict_get cd ''eligible_node_count'' (JStr [])),
        (''deployment_count'', count_field n)]"

text \<open>A value that is a non-empty list.\<close>

fun nonempty_list :: "json \<Rightarrow> bool" where
  "nonempty_list (JList (x # xs)) = True"
| "nonempty_list _ = False"

text \<open>
  The text of a table: a header record from the keys of the first row, then one record
  for each row, each record ended by CR LF.
\<close>

definition csv_table :: "row \<Rightarrow> row list \<Rightarrow> string" where
  "csv_table first_row rows =
     csv_record (map fst first_row)
     @ concat (map (\<lambda>r. csv_record (map field_text (map snd r))) rows)"

definition no_world :: world where
  "no_world = \<lparr>files = Map.empty, log = []\<rparr>"

text \<open>A document without any measurement, and its summary row.\<close>

definition doc_no_deployments :: json where
  "doc_no_deployments = JObj [(''cluster'', JStr ''c4''), (''timestamp'', JStr ''t4'')]"

definition row_no_deployments :: row where
  "row_no_deployments =
     summary_items (JStr [], JStr ''c4'') (JStr ''t4'') (JStr []) (JStr []) (JStr []) (JStr [])
       [] [] 0"

section \<open>Reading a table back\<close>

text \<open>
  The program only writes. To state what re-reading a written table gives, this is
  \<^verbatim>\<open>csv.reader\<close> of the Python library with the default dialect (the dialect
  \<^verbatim>\<open>csv.DictWriter\<close> writes), on a file opened with \<^verbatim>\<open>newline=''\<close>: the file
  yields its lines, each ended by LF, CR or CR LF and not translated; the reader
  is fed the characters of a line, then the end-of-line mark \<open>EOL\<close>, and hands a record
  over when a line ends outside a quoted field. The states are those the reader goes
  through when the dialect has no escape character; a NUL is a character like any other
  (Python 3.11 and later).
\<close>

fun py_lines :: "string \<Rightarrow> string list" where
  "py_lines [] = []"
| "py_lines (c # cs) =
     (if c = CHR 0x0A then [c] # py_lines cs
      else if c = CHR 0x0D then
        (case cs of
           [] \<Rightarrow> [[c]]
         | d # ds \<Rightarrow> if d = CHR 0x0A then [c, d] # py_lines ds else [c] # py_lines cs)
      else (case py_lines cs of [] \<Rightarrow> [[c]] | l # ls \<Rightarrow> (c # l) # ls))"

datatype token = Ch char | EOL

definition tokens :: "string \<Rightarrow> token list" where
  "tokens text = concat (map (\<lambda>l. map Ch l @ [EOL]) (py_lines text))"

datatype reader_state =
    START_RECORD
  | START_FIELD
  | IN_FIELD
  | IN_QUOTED_FIELD
  | QUOTE_IN_QUOTED_FIELD
  | EAT_CRNL

record reader =
  rd_state :: reader_state
  rd_fields :: "string list"
  rd_field :: string

definition parse_reset :: reader where
  "parse_reset = \<lparr>rd_state = START_RECORD, rd_fields = [], rd_field = []\<rparr>"

definition parse_save_field :: "reader \<Rightarrow> reader" where
  "parse_save_field p = p\<lparr>rd_fields := rd_fields p @ [rd_field p], rd_field := []\<rparr>"

text \<open>
  \<^verbatim>\<open>csv.field_size_limit()\<close>, which the program never changes: a field that holds
  this many characters takes no more.
\<close>

definition field_limit :: nat where
  "field_limit = 131072"

definition parse_add_char :: "reader \<Rightarrow> char \<Rightarrow> reader result" where
  "parse_add_char p c =
     (if field_limit \<le> length (rd_field p) then Inl CsvError
      else Inr (p\<lparr>rd_field := rd_field p @ [c]\<rparr>))"

text \<open>The state after a field ends at \<open>t\<close>, which is CR, LF or \<open>EOL\<close>.\<close>

definition end_of_line :: "reader \<Rightarrow> token \<Rightarrow> reader" where
  "end_of_line p t =
     (parse_save_field p)\<lparr>rd_state := (if t = EOL then START_RECORD else EAT_CRNL)\<rparr>"

definition expecting_field :: "reader \<Rightarrow> token \<Rightarrow> reader result" where
  "expecting_field p t =
     (case t of
        EOL \<Rightarrow> Inr (end_of_line p t)
      | Ch c \<Rightarrow>
          if c = CHR 0x0A \<or> c = CHR 0x0D then Inr (end_of_line p t)
          else if c = CHR 0x22 then Inr (p\<lparr>rd_state := IN_QUOTED_FIELD\<rparr>)
          else if c = CHR '','' then Inr (parse_save_field p)
          else rbind (parse_add_char p c) (\<lambda>q. Inr (q\<lparr>rd_state := IN_FIELD\<rparr>)))"

fun parse_process_char :: "reader \<Rightarrow> token \<Rightarrow> reader result" where
  "parse_process_char p t =
     (case rd_state p of
        START_RECORD \<Rightarrow>
          (case t of
             EOL \<Rightarrow> Inr p
           | Ch c \<Rightarrow>
               if c = CHR 0x0A \<or> c = CHR 0x0D then Inr (p\<lparr>rd_state := EAT_CRNL\<rparr>)
               else expecting_field (p\<lparr>rd_state := START_FIELD\<rparr>) t)
      | START_FIELD \<Rightarrow> expecting_field p t
      | IN_FIELD \<Rightarrow>
          (case t of
             EOL \<Rightarrow> Inr (end_of_line p t)
           | Ch c \<Rightarrow>
               if c = CHR 0x0A \<or> c = CHR 0x0D then Inr (end_of_line p t)
               else if c = CHR '','' then Inr ((parse_save_field p)\<lparr>rd_state := START_FIELD\<rparr>)
               else parse_add_char p c)
      | IN_QUOTED_FIELD \<Rightarrow>
          (case t of
             EOL \<Rightarrow> Inr p
           | Ch c \<Rightarrow>
               if c = CHR 0x22 then Inr (p\<lparr>rd_state := QUOTE_IN_QUOTED_FIELD\<rparr>)
               else parse_add_char p c)
      | QUOTE_IN_QUOTED_FIELD \<Rightarrow>
          (case t of
             EOL \<Rightarrow> Inr (end_of_line p t)
           | Ch c \<Rightarrow>
               if c = CHR 0x22
               then rbind (parse_add_char p c) (\<lambda>q. Inr (q\<lparr>rd_state := IN_QUOTED_FIELD\<rparr>))
               else if c = CHR '','' then Inr ((parse_save_field p)\<lparr>rd_state := START_FIELD\<rparr>)
               else if c = CHR 0x0A \<or> c = CHR 0x0D then Inr (end_of_line p t)
               else rbind (parse_add_char p c) (\<lambda>q. Inr (q\<lparr>rd_state := IN_FIELD\<rparr>)))
      | EAT_CRNL \<Rightarrow>
          (case t of
             EOL \<Rightarrow> Inr (p\<lparr>rd_state := START_RECORD\<rparr>)
           | Ch c \<Rightarrow> if c = CHR 0x0A \<or> c = CHR 0x0D then Inr p else Inl CsvError))"

text \<open>
  The records of a list of tokens. A record is complete when the state after an \<open>EOL\<close>
  is \<open>START_RECORD\<close>; the next one starts from \<open>parse_reset\<close>. When the input ends
  inside a record, the record read so far is handed over.
\<close>

fun read_tokens :: "reader \<Rightarrow> token list \<Rightarrow> string list list result" where
  "read_tokens p [] =
     (if rd_field p \<noteq> [] \<or> rd_state p = IN_QUOTED_FIELD
      then Inr [rd_fields (parse_save_field p)] else Inr [])"
| "read_tokens p (t # ts) =
     rbind (parse_process_char p t) (\<lambda>p'.
       if t = EOL \<and> rd_state p' = START_RECORD
       then rbind (read_tokens parse_reset ts) (\<lambda>recs. Inr (rd_fields p' # recs))
       else read_tokens p' ts)"

definition csv_reader :: "string \<Rightarrow> string list list result" where
  "csv_reader text = read_tokens parse_reset (tokens text)"

text \<open>The characters of a field between its quotes.\<close>

definition quoted_text :: "string \<Rightarrow> string" where
  "quoted_text s = concat (map (\<lambda>c. if c = CHR 0x22 then [c, c] else [c]) s)"

text \<open>The tuple of texts a row is written as.\<close>

definition row_texts :: "row \<Rightarrow> string list" where
  "row_texts r = map field_text (map snd r)"

text \<open>
  The state the reader is in after the last character of a written field: after the
  closing quote, in an unquoted field, or still expecting a field when the field is
  empty.
\<close>

definition field_end_state :: "string \<Rightarrow> reader_state" where
  "field_end_state s =
     (if list_ex special_char s then QUOTE_IN_QUOTED_FIELD
      else if s = [] then START_FIELD else IN_FIELD)"

text \<open>A text the reader takes as one field.\<close>

definition within_limit :: "string \<Rightarrow> bool" where
  "within_limit s = (length s \<le> field_limit)"

text \<open>
  The number a decimal text stands for: Python's \<^verbatim>\<open>int\<close> on an optional minus sign
  and decimal digits, which is how \<^verbatim>\<open>json.load\<close> reads an integer of a document.
\<close>

definition digit_val :: "char \<Rightarrow> nat" where
  "digit_val c = of_char c - 48"

definition nat_of_text :: "string \<Rightarrow> nat" where
  "nat_of_text s = foldl (\<lambda>a c. 10 * a + digit_val c) 0 s"

definition int_of_text :: "string \<Rightarrow> int" where
  "int_of_text s =
     (case s of
        [] \<Rightarrow> 0
      | c # ds \<Rightarrow> if c = CHR ''-'' then - int (nat_of_text ds) else int (nat_of_text s))"

text \<open>
  A document with two deployments that differ only in the type of \<^verbatim>\<open>total_pods\<close>
  (the number 7, the string \<^verbatim>\<open>7\<close>) and of \<^verbatim>\<open>nodes_used\<close> (null, the empty
  string), and the two rows \<open>export_deployments_csv\<close> builds for it.
\<close>

definition doc_mixed :: json where
  "doc_mixed =
     JObj [(''cluster'', JStr ''c5''), (''timestamp'', JStr ''t5''),
       (''measurements'', JList [
          JObj [(''deployments'',
             JObj [(''a'', JObj [(''name'', JStr ''x''), (''total_pods'', JInt 7),
                                 (''nodes_used'', JNull)]),
                   (''b'', JObj [(''name'', JStr ''x''), (''total_pods'', JStr ''7''),
                                 (''nodes_used'', JStr [])])])]])]"

definition run_mixed :: run_fields where
  "run_mixed = \<lparr>r_region = JStr [], r_cluster_name = JStr ''c5'', r_namespace_str = JStr [],
               r_timestamp = JStr ''t5'', r_scenario = JStr [], r_action = JStr []\<rparr>"

definition row_number :: row where
  "row_number =
     deployment_row run_mixed (JStr ''t5'') ''a''
       [(''name'', JStr ''x''), (''total_pods'', JInt 7), (''nodes_used'', JNull)]"

definition row_string :: row where
  "row_string =
     deployment_row run_mixed (JStr ''t5'') ''b''
       [(''name'', JStr ''x''), (''total_pods'', JStr ''7''), (''nodes_used'', JStr [])]"

text \<open>
  A document with one deployment, whose name is one character longer than
  \<open>field_limit\<close>, and the row \<open>export_deployments_csv\<close> builds for it; then the
  row of a name of \<open>field_limit\<close> characters.
\<close>

definition doc_long :: json where
  "doc_long =
     JObj [(''cluster'', JStr ''c5''), (''timestamp'', JStr ''t5''),
       (''measurements'', JList [
          JObj [(''deployments'',
             JObj [(replicate (Suc field_limit) CHR ''a'', JObj [])])]])]"

definition row_long :: row where
  "row_long =
     deployment_row run_mixed (JStr ''t5'') (replicate (Suc field_limit) CHR ''a'') []"

definition row_full :: row where
  "row_full = deployment_row run_mixed (JStr ''t5'') (replicate field_limit CHR ''a'') []"

section \<open>Facts about split and indexing\<close>

lemma split_not_Nil: "split c s \<noteq> []"
  by (induction s) (auto split: list.splits)

lemma split_no_sep: "c \<notin> set s \<Longrightarrow> split c s = [s]"
  by (induction s) auto

lemma split_append_sep:
  "c \<notin> set s \<Longrightarrow> split c (s @ c # t) = s # split c t"
  by (induction s) auto

lemma py_index_last: "xs \<noteq> [] \<Longrightarrow> py_index xs (- 1) = Inr (last xs)"
  by (cases xs rule: rev_cases) (auto simp: py_index_def Let_def nth_append)

lemma py_index_nat: "n < length xs \<Longrightarrow> py_index xs (int n) = Inr (xs ! n)"
  by (simp add: py_index_def Let_def)

lemma split_arn_prefix:
  assumes "prefix ''arn:aws:eks:'' s"
  shows "\<exists>u. split CHR '':'' s = ''arn'' # ''aws'' # ''eks'' # split CHR '':'' u"
proof -
  from assms obtain u where "s = ''arn:aws:eks:'' @ u"
    by (auto simp: prefix_def)
  then show ?thesis by auto
qed

lemma split_eks_arn:
  assumes "CHR '':'' \<notin> set region" "CHR '':'' \<notin> set acct" "CHR '':'' \<notin> set name"
  shows "split CHR '':'' (eks_arn region acct name) =
           [''arn'', ''aws'', ''eks'', region, acct, ''cluster/'' @ name]"
proof -
  have a: "split CHR '':'' (''cluster/'' @ name) = [''cluster/'' @ name]"
    using assms by (intro split_no_sep) simp
  have b: "split CHR '':'' (acct @ '':cluster/'' @ name) =
             acct # split CHR '':'' (''cluster/'' @ name)"
    using split_append_sep [of "CHR '':''" acct "''cluster/'' @ name"] assms by simp
  have c: "split CHR '':'' (region @ '':'' @ acct @ '':cluster/'' @ name) =
             region # split CHR '':'' (acct @ '':cluster/'' @ name)"
    using split_append_sep [of "CHR '':''" region "acct @ '':cluster/'' @ name"] assms by simp
  show ?thesis
    unfolding eks_arn_def using a b c by simp
qed

lemma parse_eks_arn:
  assumes "CHR '':'' \<notin> set region" "CHR '':'' \<notin> set acct" "CHR '':'' \<notin> set name"
  shows "parse_cluster_info_str (eks_arn region acct name) =
           Inr (region, last (split CHR ''/'' (''cluster/'' @ name)))"
proof -
  have p: "prefix ''arn:aws:eks:'' (eks_arn region acct name)"
    by (simp add: eks_arn_def)
  have l: "py_index (split CHR ''/'' (''cluster/'' @ name)) (- 1) =
             Inr (last (split CHR ''/'' (''cluster/'' @ name)))"
    by (rule py_index_last) (rule split_not_Nil)
  show ?thesis
    using p l split_eks_arn [OF assms]
    by (simp add: parse_cluster_info_str_def Let_def rbind_def py_index_def)
qed

lemma parse_cluster_info_str_total: "\<exists>p. parse_cluster_info_str s = Inr p"
proof (cases "prefix ''arn:aws:eks:'' s")
  case False
  then show ?thesis by (simp add: parse_cluster_info_str_def)
next
  case True
  let ?parts = "split CHR '':'' s"
  have r: "\<exists>x. (if length ?parts > 3 then py_index ?parts 3 else Inr []) = Inr x"
    using py_index_nat [of 3 ?parts] by auto
  have n: "\<exists>y. (if length ?parts > 5
                then rbind (py_index ?parts 5) (\<lambda>p. py_index (split CHR ''/'' p) (- 1))
                else Inr []) = Inr y"
    using py_index_nat [of 5 ?parts] py_index_last [OF split_not_Nil]
    by (auto simp: rbind_def)
  from r n True show ?thesis
    by (auto simp: parse_cluster_info_str_def Let_def rbind_def)
qed

lemma parse_short_name:
  assumes "prefix ''arn:aws:eks:'' s" and "length (split CHR '':'' s) < 6"
  shows "\<exists>r. parse_cluster_info_str s = Inr (r, [])"
proof -
  let ?parts = "split CHR '':'' s"
  have r: "\<exists>x. (if length ?parts > 3 then py_index ?parts 3 else Inr []) = Inr x"
    using py_index_nat [of 3 ?parts] by auto
  with assms show ?thesis
    by (auto simp: parse_cluster_info_str_def Let_def rbind_def)
qed

section \<open>Parsing the cluster context\<close>

text \<open>
  C2, as the code has it. For every \<open>region\<close>, \<open>acct\<close> and \<open>name\<close> without a colon,
  \<open>parse_cluster_info\<close> on \<^verbatim>\<open>arn:aws:eks:<region>:<acct>:cluster/<name>\<close> returns
  the 4th colon-segment, which is \<open>region\<close>, and the last slash-segment of the 6th
  colon-segment; that one is \<open>name\<close> when \<open>name\<close> holds no slash.
\<close>

theorem parse_cluster_info_arn:
  assumes "CHR '':'' \<notin> set region" and "CHR '':'' \<notin> set acct"
    and "CHR '':'' \<notin> set name"
  shows "parse_cluster_info (JStr (eks_arn region acct name)) =
           Inr (split CHR '':'' (eks_arn region acct name) ! 3,
                last (split CHR ''/'' (split CHR '':'' (eks_arn region acct name) ! 5)))
         \<and> split CHR '':'' (eks_arn region acct name) ! 3 = region
         \<and> (CHR ''/'' \<notin> set name \<longrightarrow>
              parse_cluster_info (JStr (eks_arn region acct name)) = Inr (region, name))"
proof -
  have s: "split CHR '':'' (eks_arn region acct name) =
             [''arn'', ''aws'', ''eks'', region, acct, ''cluster/'' @ name]"
    by (rule split_eks_arn [OF assms])
  have n: "CHR ''/'' \<notin> set name \<Longrightarrow>
             split CHR ''/'' (''cluster/'' @ name) = [''cluster'', name]"
    using split_append_sep [of "CHR ''/''" "''cluster''" name] split_no_sep [of "CHR ''/''" name]
    by simp
  show ?thesis
    using parse_eks_arn [OF assms] s n by auto
qed

theorem parse_cluster_info_arn_witness:
  "CHR '':'' \<notin> set ''us-east-1'' \<and> CHR '':'' \<notin> set ''906324658258''
   \<and> CHR '':'' \<notin> set ''prod-live-main'' \<and> CHR ''/'' \<notin> set ''prod-live-main''
   \<and> eks_arn ''us-east-1'' ''906324658258'' ''prod-live-main'' =
       ''arn:aws:eks:us-east-1:906324658258:cluster/prod-live-main''
   \<and> parse_cluster_info (JStr ''arn:aws:eks:us-east-1:906324658258:cluster/prod-live-main'') =
       Inr (''us-east-1'', ''prod-live-main'')"
  using parse_cluster_info_arn [of "''us-east-1''" "''906324658258''" "''prod-live-main''"]
  by (simp add: eks_arn_def)

text \<open>
  C2 as stated fails when the name holds a slash: the string
  \<^verbatim>\<open>arn:aws:eks:us-east-1:1:cluster/a/b\<close> has no colon inside its segments, and the name
  returned is \<^verbatim>\<open>b\<close>, not \<^verbatim>\<open>a/b\<close>.
\<close>

theorem parse_cluster_info_slash_counterexample:
  "CHR '':'' \<notin> set ''us-east-1'' \<and> CHR '':'' \<notin> set ''1'' \<and> CHR '':'' \<notin> set ''a/b''
   \<and> eks_arn ''us-east-1'' ''1'' ''a/b'' = ''arn:aws:eks:us-east-1:1:cluster/a/b''
   \<and> parse_cluster_info (JStr (eks_arn ''us-east-1'' ''1'' ''a/b'')) = Inr (''us-east-1'', ''b'')
   \<and> parse_cluster_info (JStr (eks_arn ''us-east-1'' ''1'' ''a/b'')) \<noteq> Inr (''us-east-1'', ''a/b'')"
  by (simp add: eks_arn_def parse_cluster_info_str_def Let_def rbind_def py_index_def)

text \<open>
  C3. \<open>parse_cluster_info\<close> raises on no string. A string with the prefix
  \<^verbatim>\<open>arn:aws:eks:\<close> always has a 4th colon-segment, which is the region returned; when
  it has fewer than 4 or fewer than 6 colon-segments, the region or the cluster name
  returned is empty: the cluster name is.
\<close>

theorem parse_cluster_info_degrades:
  "(\<exists>r n. parse_cluster_info (JStr s) = Inr (r, n))
   \<and> (prefix ''arn:aws:eks:'' s \<longrightarrow>
        4 \<le> length (split CHR '':'' s)
        \<and> (\<exists>n. parse_cluster_info (JStr s) = Inr (split CHR '':'' s ! 3, n)))
   \<and> (prefix ''arn:aws:eks:'' s
        \<and> (length (split CHR '':'' s) < 4 \<or> length (split CHR '':'' s) < 6) \<longrightarrow>
        (\<exists>r n. parse_cluster_info (JStr s) = Inr (r, n) \<and> (r = [] \<or> n = []) \<and> n = []))"
proof -
  have total: "\<exists>r n. parse_cluster_info (JStr s) = Inr (r, n)"
    using parse_cluster_info_str_total [of s] by auto
  have four: "4 \<le> length (split CHR '':'' s)" if "prefix ''arn:aws:eks:'' s"
  proof -
    from split_arn_prefix [OF that] obtain u
      where "split CHR '':'' s = ''arn'' # ''aws'' # ''eks'' # split CHR '':'' u" ..
    then show ?thesis
      using split_not_Nil [of "CHR '':''" u] by (cases "split CHR '':'' u") auto
  qed
  have region: "\<exists>n. parse_cluster_info (JStr s) = Inr (split CHR '':'' s ! 3, n)"
    if p: "prefix ''arn:aws:eks:'' s"
  proof -
    from total obtain r n where e: "parse_cluster_info_str s = Inr (r, n)" by auto
    have "py_index (split CHR '':'' s) 3 = Inr (split CHR '':'' s ! 3)"
      using py_index_nat [of 3 "split CHR '':'' s"] four [OF p] by simp
    with e p four [OF p] have "r = split CHR '':'' s ! 3"
      by (auto simp: parse_cluster_info_str_def Let_def rbind_def split: if_splits sum.splits)
    with e show ?thesis by simp
  qed
  have short: "\<exists>r. parse_cluster_info (JStr s) = Inr (r, [])"
    if "prefix ''arn:aws:eks:'' s" "length (split CHR '':'' s) < 6"
    using parse_short_name [OF that] by simp
  show ?thesis
    using total four region short by fastforce
qed

theorem parse_cluster_info_degrades_witness:
  "prefix ''arn:aws:eks:'' ''arn:aws:eks:us-east-1''
   \<and> length (split CHR '':'' ''arn:aws:eks:us-east-1'') < 6
   \<and> parse_cluster_info (JStr ''arn:aws:eks:us-east-1'') = Inr (''us-east-1'', [])"
  using parse_cluster_info_degrades [of "''arn:aws:eks:us-east-1''"]
  by (simp add: parse_cluster_info_str_def Let_def rbind_def py_index_def)

section \<open>Facts about results and lookups\<close>

lemma rbind_Inr [simp]: "rbind (Inr x) f = f x"
  by (simp add: rbind_def)

lemma rbind_Inl [simp]: "rbind (Inl e) f = Inl e"
  by (simp add: rbind_def)

lemma rbind_eq_Inr: "rbind m f = Inr y \<longleftrightarrow> (\<exists>x. m = Inr x \<and> f x = Inr y)"
  by (cases m) simp_all

lemma as_dict_eq_Inr: "as_dict x = Inr kvs \<longleftrightarrow> x = JObj kvs"
  by (cases x) auto

lemma py_items_eq_Inr: "py_items x = Inr kvs \<longleftrightarrow> x = JObj kvs"
  by (cases x) auto

lemma py_get_JObj [simp]: "py_get (JObj kvs) k d = Inr (dict_get kvs k d)"
  by (simp add: py_get_def)

lemma py_get_eq_Inr: "py_get x k d = Inr v \<longleftrightarrow> (\<exists>kvs. x = JObj kvs \<and> v = dict_get kvs k d)"
  by (cases x) (auto simp: py_get_def)

lemma py_get_not_obj: "\<not> is_obj x \<Longrightarrow> py_get x k d = Inl AttributeError"
  by (cases x) (auto simp: py_get_def)

lemma is_obj_items: "is_obj x \<Longrightarrow> x = JObj (obj_items x)"
  by (cases x) auto

lemma get_or_JObj:
  "get_or (JObj kvs) k1 k2 d =
     Inr (if truthy (dict_get kvs k1 d) then dict_get kvs k1 d else dict_get kvs k2 d)"
  by (simp add: get_or_def)

lemma get_or_eq_Inr:
  "get_or x k1 k2 d = Inr v \<Longrightarrow> \<exists>kvs. x = JObj kvs"
  by (cases x) (auto simp: get_or_def py_get_def)

section \<open>The loops of the deployments export in closed form\<close>

lemma deployments_loop_eq:
  "deployments_loop run mts items rows =
     (if list_all is_obj (map snd items) then Inr (rows @ map (row_of run mts) items)
      else Inl AttributeError)"
proof (induction items arbitrary: rows)
  case Nil
  then show ?case by simp
next
  case (Cons item rest)
  show ?case
  proof (cases "snd item")
    case (JObj dd)
    then show ?thesis
      using Cons.IH [of "rows @ [deployment_row run mts (fst item) dd]"]
      by (simp add: row_of_def)
  qed simp_all
qed

lemma measurement_step:
  "rbind (py_get m ''deployments'' (JObj [])) (\<lambda>deployments.
     rbind (py_get m ''timestamp'' (r_timestamp run)) (\<lambda>measurement_timestamp.
     rbind (py_items deployments) (\<lambda>items.
       deployments_loop run measurement_timestamp items rows))) =
   (if measurement_ok m then Inr (rows @ measurement_rows run m) else Inl AttributeError)"
proof (cases m)
  case (JObj kvs)
  show ?thesis
  proof (cases "dict_get kvs ''deployments'' (JObj [])")
    case d: (JObj items)
    show ?thesis
      using JObj d
      by (simp add: deployments_loop_eq measurement_ok_def deployments_of_def
          measurement_rows_def measurement_timestamp_of_def dict_get_def)
  qed (simp_all add: JObj measurement_ok_def)
qed (simp_all add: py_get_def measurement_ok_def)

lemma measurements_loop_eq:
  "measurements_loop run ms rows =
     (if list_all measurement_ok ms then Inr (rows @ concat (map (measurement_rows run) ms))
      else Inl AttributeError)"
proof (induction ms arbitrary: rows)
  case Nil
  then show ?case by simp
next
  case (Cons m rest)
  have "measurements_loop run (m # rest) rows =
          rbind (if measurement_ok m then Inr (rows @ measurement_rows run m)
                 else Inl AttributeError)
            (\<lambda>rows'. measurements_loop run rest rows')"
    using measurement_step [of m run rows]
    by (cases "py_get m ''deployments'' (JObj [])";
        cases "py_get m ''timestamp'' (r_timestamp run)")
       (auto simp: rbind_def split: sum.splits)
  then show ?case
    by (simp add: Cons.IH)
qed

lemma deployment_doc_Inr:
  assumes "deployment_doc data rows = Inr out"
  shows "deployment_run_fields data = Inr (doc_run data)
         \<and> list_all measurement_ok (doc_measurements data)
         \<and> out = rows @ concat (map (measurement_rows (doc_run data)) (doc_measurements data))"
proof -
  from assms obtain run mj ms where r: "deployment_run_fields data = Inr run"
    and m: "deployment_measurements data = Inr mj" and i: "py_iter mj = Inr ms"
    and l: "measurements_loop run ms rows = Inr out"
    by (auto simp: deployment_doc_def rbind_eq_Inr)
  have "doc_run data = run" "doc_measurements data = ms"
    using r m i by (simp_all add: doc_run_def doc_measurements_def)
  with r l show ?thesis
    by (simp add: measurements_loop_eq split: if_splits)
qed

lemma doc_rows_triples:
  "concat (map (measurement_rows (doc_run data)) (doc_measurements data)) =
     map triple_row (doc_triples data)"
proof -
  have "measurement_rows (doc_run data) =
          (\<lambda>m. map triple_row (map (\<lambda>item. (data, m, item)) (deployments_of m)))"
    by (rule ext) (simp add: measurement_rows_def triple_row_def comp_def)
  then show ?thesis
    by (simp add: doc_triples_def map_concat comp_def)
qed

lemma deployments_files_loop_Inr:
  "deployments_files_loop json_files rows = Inr out \<Longrightarrow>
     out = rows @ map triple_row (triples json_files)"
proof (induction json_files arbitrary: rows)
  case Nil
  then show ?case by (simp add: triples_def)
next
  case (Cons f rest)
  from Cons.prems obtain data rows' where f: "f = Inr data"
    and d: "deployment_doc data rows = Inr rows'"
    and r: "deployments_files_loop rest rows' = Inr out"
    by (auto simp: rbind_eq_Inr)
  have "rows' = rows @ map triple_row (doc_triples data)"
    using deployment_doc_Inr [OF d] by (simp add: doc_rows_triples)
  with Cons.IH [OF r] f show ?case
    by (simp add: triples_def)
qed

lemmas run_defs = deployment_doc_def deployment_run_fields_def run_timestamp_def get_or_def
  cluster_identity_def namespaces_of_def namespace_str_def deployment_measurements_def
  measurements_of_def parse_cluster_info_str_def py_index_def Let_def dict_get_def

lemmas view_defs = triples_def doc_triples_def doc_measurements_def doc_run_def
  deployments_of_def measurement_timestamp_of_def

section \<open>The deployments export\<close>

text \<open>
  C6. When the loop of \<open>export_deployments_csv\<close> over the loaded files ends without an
  exception, the rows it has collected are the rows of the (run, measurement, deployment)
  triples, one row for each triple and in their order: every measurement of a run's
  collection and every entry of its deployments mapping gives one row. Their number is
  the sum, over the files and over all measurements of each, of the sizes of the
  deployments mappings.
\<close>

theorem deployments_one_row_per_triple:
  assumes "deployments_files_loop json_files [] = Inr rows"
  shows "rows = map triple_row (triples json_files)
         \<and> length rows = length (triples json_files)
         \<and> length rows =
             sum_list (map (\<lambda>f. case f of Inl e \<Rightarrow> 0
                                 | Inr data \<Rightarrow>
                                     sum_list (map (\<lambda>m. length (deployments_of m))
                                                (doc_measurements data)))
                        json_files)"
proof -
  have r: "rows = map triple_row (triples json_files)"
    using deployments_files_loop_Inr [OF assms] by simp
  have "length (triples fs) =
          sum_list (map (\<lambda>f. case f of Inl e \<Rightarrow> 0
                              | Inr data \<Rightarrow>
                                  sum_list (map (\<lambda>m. length (deployments_of m))
                                             (doc_measurements data)))
                     fs)" for fs
    by (induction fs)
       (auto simp: triples_def doc_triples_def length_concat comp_def split: sum.splits)
  with r show ?thesis by simp
qed

theorem deployments_one_row_per_triple_witness:
  "deployments_files_loop [Inr doc_new, Inr doc_legacy] [] =
     Inr (map triple_row (triples [Inr doc_new, Inr doc_legacy]))
   \<and> length (triples [Inr doc_new, Inr doc_legacy]) = 4
   \<and> map fst (triples [Inr doc_new, Inr doc_legacy]) = [doc_new, doc_new, doc_new, doc_legacy]
   \<and> map (\<lambda>t. fst (snd (snd t))) (triples [Inr doc_new, Inr doc_legacy]) =
       [''a'', ''b'', ''a'', ''q'']"
proof -
  have "\<exists>rows. deployments_files_loop [Inr doc_new, Inr doc_legacy] [] = Inr rows"
    by (simp add: doc_new_def doc_legacy_def run_defs)
  then obtain rows
    where r: "deployments_files_loop [Inr doc_new, Inr doc_legacy] [] = Inr rows" ..
  have t: "length (triples [Inr doc_new, Inr doc_legacy]) = 4"
    "map fst (triples [Inr doc_new, Inr doc_legacy]) = [doc_new, doc_new, doc_new, doc_legacy]"
    "map (\<lambda>t. fst (snd (snd t))) (triples [Inr doc_new, Inr doc_legacy]) =
       [''a'', ''b'', ''a'', ''q'']"
    by (simp_all add: view_defs doc_new_def doc_legacy_def run_defs)
  from deployments_one_row_per_triple [OF r] r t show ?thesis by simp
qed

section \<open>The summary row in closed form\<close>

lemma dict_set_fresh: "k \<notin> set (map fst r) \<Longrightarrow> dict_set k v r = r @ [(k, v)]"
  by (induction r) auto

lemma dict_update_fresh:
  "distinct (map fst r @ map fst new) \<Longrightarrow> dict_update r new = r @ new"
proof (induction new arbitrary: r)
  case Nil
  then show ?case by (simp add: dict_update_def)
next
  case (Cons kv new)
  have "dict_update r (kv # new) = dict_update (dict_set (fst kv) (snd kv) r) new"
    by (simp add: dict_update_def)
  also have "dict_set (fst kv) (snd kv) r = r @ [kv]"
    using Cons.prems by (simp add: dict_set_fresh)
  also have "dict_update (r @ [kv]) new = (r @ [kv]) @ new"
    using Cons.prems by (intro Cons.IH) auto
  finally show ?case by simp
qed

lemma summary_columns_distinct: "distinct summary_columns"
  by code_simp

lemma summary_items_keys: "map fst (summary_items ident ts sc ac joined el p cd n) = summary_columns"
  by (simp add: summary_items_def postprocessed_items_def summary_columns_def)


lemma distinct_append_left: "distinct (xs @ ys @ zs) \<Longrightarrow> distinct (xs @ ys)"
  by auto

lemma summary_updates:
  "dict_update
     (dict_update
        [(''region'', a1), (''cluster'', a2), (''timestamp'', a3), (''scenario'', a4),
         (''action'', a5), (''namespaces'', a6), (''elapsed_time'', a7)]
        (postprocessed_items p))
     [(''node_count'', b1), (''eligible_node_count'', b2), (''deployment_count'', b3)] =
   [(''region'', a1), (''cluster'', a2), (''timestamp'', a3), (''scenario'', a4),
    (''action'', a5), (''namespaces'', a6), (''elapsed_time'', a7)]
   @ postprocessed_items p
   @ [(''node_count'', b1), (''eligible_node_count'', b2), (''deployment_count'', b3)]"
proof -
  let ?h = "[(''region'', a1), (''cluster'', a2), (''timestamp'', a3), (''scenario'', a4),
             (''action'', a5), (''namespaces'', a6), (''elapsed_time'', a7)]"
  let ?t = "[(''node_count'', b1), (''eligible_node_count'', b2), (''deployment_count'', b3)]"
  have k: "map fst ?h @ map fst (postprocessed_items p) @ map fst ?t = summary_columns"
    by (simp add: postprocessed_items_def summary_columns_def)
  have d: "distinct (map fst ?h @ map fst (postprocessed_items p) @ map fst ?t)"
    unfolding k by (rule summary_columns_distinct)
  have 1: "dict_update ?h (postprocessed_items p) = ?h @ postprocessed_items p"
    by (rule dict_update_fresh) (rule distinct_append_left [OF d])
  have 2: "dict_update (?h @ postprocessed_items p) ?t = (?h @ postprocessed_items p) @ ?t"
    by (rule dict_update_fresh) (use d in \<open>simp only: map_append append_assoc\<close>)
  show ?thesis
    unfolding 1 2 by simp
qed

lemma summary_row_Inr:
  assumes "summary_row data = Inr row"
  shows "\<exists>ident ts sc ac joined el p cd n.
           postprocessed_block data = Inr (JObj p) \<and> cluster_counts data = Inr (JObj cd, n)
           \<and> row = summary_items ident ts sc ac joined el p cd n"
proof -
  from assms obtain ident ts el args sc ac ns joined pp p cc cd where
    "postprocessed_block data = Inr pp" "as_dict pp = Inr p"
    "cluster_counts data = Inr cc" "as_dict (fst cc) = Inr cd"
    and row: "row = dict_update
             (dict_update
               [(''region'', fst ident),
                (''cluster'', snd ident),
                (''timestamp'', ts),
                (''scenario'', sc),
                (''action'', ac),
                (''namespaces'', joined),
                (''elapsed_time'', el)]
               (postprocessed_items p))
             [(''node_count'', dict_get cd ''node_count'' (JStr [])),
              (''eligible_node_count'', dict_get cd ''eligible_node_count'' (JStr [])),
              (''deployment_count'', count_field (snd cc))]"
    unfolding summary_row_def rbind_eq_Inr by blast
  then have "postprocessed_block data = Inr (JObj p)" "cluster_counts data = Inr (JObj cd, snd cc)"
    by (cases cc; simp add: as_dict_eq_Inr)+
  moreover have "row = summary_items ident ts sc ac joined el p cd (snd cc)"
    unfolding row summary_updates summary_items_def ..
  ultimately show ?thesis by blast
qed

lemma summary_items_lookup:
  "map_of (summary_items ident ts sc ac joined el p cd n) ''nodes_used_avg'' =
     Some (dict_get p ''nosed_used_avg'' (JStr []))"
  "map_of (summary_items ident ts sc ac joined el p cd n) ''nodes_used_median'' =
     Some (dict_get p ''nosed_used_median'' (JStr []))"
  "map_of (summary_items ident ts sc ac joined el p cd n) ''nodes_used_max'' =
     Some (dict_get p ''nosed_used_max'' (JStr []))"
  "map_of (summary_items ident ts sc ac joined el p cd n) ''nodes_used_min'' =
     Some (dict_get p ''nosed_used_min'' (JStr []))"
  "map_of (summary_items ident ts sc ac joined el p cd n) ''node_count'' =
     Some (dict_get cd ''node_count'' (JStr []))"
  "map_of (summary_items ident ts sc ac joined el p cd n) ''eligible_node_count'' =
     Some (dict_get cd ''eligible_node_count'' (JStr []))"
  "map_of (summary_items ident ts sc ac joined el p cd n) ''deployment_count'' =
     Some (count_field n)"
  "map_of (summary_items ident ts sc ac joined el p cd n) ''nosed_used_avg'' = None"
  by (simp_all add: summary_items_def postprocessed_items_def)

lemmas summary_defs = summary_row_def cluster_identity_def run_timestamp_def run_elapsed_def
  get_or_def namespaces_of_def namespace_str_def postprocessed_block_def cluster_counts_def
  measurements_of_def parse_cluster_info_str_def py_index_def Let_def dict_get_def

lemma str_nat_not_Nil: "str_nat n \<noteq> []"
  by (subst str_nat.simps) simp

lemma digit_char_code: "n < 10 \<Longrightarrow> of_char (digit_char n) = 48 + n"
  by (simp add: digit_char_def)

lemma digit_char_zero: "n < 10 \<Longrightarrow> digit_char n = CHR ''0'' \<longleftrightarrow> n = 0"
proof
  assume "n < 10" "digit_char n = CHR ''0''"
  then have "(of_char (digit_char n) :: nat) = of_char CHR ''0''" by simp
  with \<open>n < 10\<close> show "n = 0" by (simp add: digit_char_code)
next
  assume "n = 0"
  have "char_of (of_char CHR ''0'' :: nat) = CHR ''0''" by (rule char_of_char)
  with \<open>n = 0\<close> show "digit_char n = CHR ''0''" by (simp add: digit_char_def)
qed

lemma str_nat_zero: "str_nat n = ''0'' \<longleftrightarrow> n = 0"
proof (cases "n < 10")
  case True
  then show ?thesis
    by (subst str_nat.simps) (simp add: digit_char_zero)
next
  case False
  have "length (str_nat n) \<ge> 2"
    using False str_nat_not_Nil [of "n div 10"]
    by (subst str_nat.simps) (cases "str_nat (n div 10)"; simp)
  with False show ?thesis by auto
qed

lemma count_field_text:
  "field_text (count_field n) = (if n = 0 then [] else str_nat n)"
  "field_text (count_field n) \<noteq> ''0''"
  by (auto simp: count_field_def str_int_def str_nat_zero)

lemma cluster_counts_legacy:
  assumes "\<not> truthy (dict_get kvs ''measurements'' (JList []))"
    and "\<not> truthy (dict_get kvs ''measurements_taken'' (JList []))"
    and "cluster_counts (JObj kvs) = Inr (cd, n)"
  shows "\<exists>post. dict_get kvs ''measurements_post'' (JObj []) = JObj post
          \<and> py_len (dict_get post ''deployments'' (JObj [])) = Inr n
          \<and> (if truthy (dict_get post ''cluster'' (JObj []))
              then cd = dict_get post ''cluster'' (JObj [])
              else \<exists>pre. dict_get kvs ''measurements_pre'' (JObj []) = JObj pre
                     \<and> cd = dict_get pre ''cluster'' (JObj []))"
proof -
  have m: "measurements_of (JObj kvs) = Inr (dict_get kvs ''measurements_taken'' (JList []))"
    using assms(1) by (simp add: measurements_of_def get_or_JObj)
  from assms(3) obtain post where
    post: "dict_get kvs ''measurements_post'' (JObj []) = JObj post"
    using assms(2) unfolding cluster_counts_def m
    by (auto simp: rbind_eq_Inr py_get_eq_Inr)
  show ?thesis
  proof (cases "truthy (dict_get post ''cluster'' (JObj []))")
    case True
    with assms(2,3) post show ?thesis
      unfolding cluster_counts_def m by (auto simp: rbind_eq_Inr)
  next
    case False
    with assms(2,3) post show ?thesis
      unfolding cluster_counts_def m by (auto simp: rbind_eq_Inr py_get_eq_Inr)
  qed
qed

section \<open>The summary export\<close>

text \<open>
  C1. Whenever \<open>export_summary_csv\<close> builds the row of a document, each of the
  misspelled keys \<^verbatim>\<open>nosed_used_avg\<close>, \<^verbatim>\<open>nosed_used_median\<close>,
  \<^verbatim>\<open>nosed_used_max\<close>, \<^verbatim>\<open>nosed_used_min\<close> that the postprocessed block of the
  document holds has its value, unchanged, under the column \<^verbatim>\<open>nodes_used_avg\<close>,
  \<^verbatim>\<open>nodes_used_median\<close>, \<^verbatim>\<open>nodes_used_max\<close>, \<^verbatim>\<open>nodes_used_min\<close> of the row, and
  the row has no column with the misspelled name. The witness is a document with
  \<^verbatim>\<open>nosed_used_avg\<close> = 7: the column \<^verbatim>\<open>nodes_used_avg\<close> of its row holds 7, written
  as \<^verbatim>\<open>7\<close>.
\<close>

theorem misspelled_keys_to_nodes_used:
  assumes "summary_row data = Inr row"
    and "postprocessed_block data = Inr (JObj p)"
  shows "(map_of p ''nosed_used_avg'' = Some a \<longrightarrow> map_of row ''nodes_used_avg'' = Some a)
       \<and> (map_of p ''nosed_used_median'' = Some b \<longrightarrow> map_of row ''nodes_used_median'' = Some b)
       \<and> (map_of p ''nosed_used_max'' = Some c \<longrightarrow> map_of row ''nodes_used_max'' = Some c)
       \<and> (map_of p ''nosed_used_min'' = Some d \<longrightarrow> map_of row ''nodes_used_min'' = Some d)
       \<and> map_of row ''nosed_used_avg'' = None"
proof -
  from summary_row_Inr [OF assms(1)] obtain ident ts sc ac joined el p' cd n
    where p': "postprocessed_block data = Inr (JObj p')"
      and row: "row = summary_items ident ts sc ac joined el p' cd n"
    by blast
  from p' assms(2) have "p' = p" by simp
  then show ?thesis
    unfolding row by (simp add: summary_items_lookup dict_get_def)
qed

theorem misspelled_keys_to_nodes_used_witness:
  "postprocessed_block doc_new =
     Inr (JObj [(''nosed_used_avg'', JInt 7), (''nosed_used_median'', JInt 6),
                (''nosed_used_max'', JInt 9), (''nosed_used_min'', JInt 2)])
   \<and> (\<exists>row. summary_row doc_new = Inr row
          \<and> map_of row ''nodes_used_avg'' = Some (JInt 7)
          \<and> map_of row ''nodes_used_median'' = Some (JInt 6)
          \<and> map_of row ''nodes_used_max'' = Some (JInt 9)
          \<and> map_of row ''nodes_used_min'' = Some (JInt 2)
          \<and> field_text (dict_get row ''nodes_used_avg'' (JStr [])) = ''7'')"
proof -
  have p: "postprocessed_block doc_new =
     Inr (JObj [(''nosed_used_avg'', JInt 7), (''nosed_used_median'', JInt 6),
                (''nosed_used_max'', JInt 9), (''nosed_used_min'', JInt 2)])"
    by (simp add: doc_new_def summary_defs)
  have "\<exists>row. summary_row doc_new = Inr row"
    by (simp add: doc_new_def summary_defs)
  then obtain row where r: "summary_row doc_new = Inr row" ..
  have s: "str_nat 7 = ''7''" by code_simp
  from misspelled_keys_to_nodes_used [OF r p, of "JInt 7" "JInt 6" "JInt 9" "JInt 2"] r p
  show ?thesis
    by (simp add: dict_get_def str_int_def s)
qed

text \<open>
  C5. For a document whose \<^verbatim>\<open>measurements\<close> and \<^verbatim>\<open>measurements_taken\<close> are both
  absent or empty (not true as Python values), the row of the summary takes
  \<^verbatim>\<open>node_count\<close> and \<^verbatim>\<open>eligible_node_count\<close> from the cluster block of
  \<^verbatim>\<open>measurements_post\<close> when that block is not empty, and from the cluster block of
  \<^verbatim>\<open>measurements_pre\<close> when it is absent or empty; \<^verbatim>\<open>deployment_count\<close> is the
  size \<open>n\<close> of the deployments mapping of \<^verbatim>\<open>measurements_post\<close>, stored as the empty
  string when \<open>n\<close> is 0, so that the field written is empty then and is never the
  text \<^verbatim>\<open>0\<close>.
\<close>

theorem legacy_summary_fields:
  assumes "summary_row (JObj kvs) = Inr row"
    and "\<not> truthy (dict_get kvs ''measurements'' (JList []))"
    and "\<not> truthy (dict_get kvs ''measurements_taken'' (JList []))"
  shows "\<exists>post cd n.
           dict_get kvs ''measurements_post'' (JObj []) = JObj post
         \<and> (if truthy (dict_get post ''cluster'' (JObj []))
             then dict_get post ''cluster'' (JObj []) = JObj cd
             else \<exists>pre. dict_get kvs ''measurements_pre'' (JObj []) = JObj pre
                    \<and> dict_get pre ''cluster'' (JObj []) = JObj cd)
         \<and> map_of row ''node_count'' = Some (dict_get cd ''node_count'' (JStr []))
         \<and> map_of row ''eligible_node_count'' = Some (dict_get cd ''eligible_node_count'' (JStr []))
         \<and> py_len (dict_get post ''deployments'' (JObj [])) = Inr n
         \<and> map_of row ''deployment_count'' = Some (if n = 0 then JStr [] else JInt (int n))
         \<and> field_text (dict_get row ''deployment_count'' JNull) = (if n = 0 then [] else str_nat n)
         \<and> field_text (dict_get row ''deployment_count'' JNull) \<noteq> ''0''"
proof -
  from summary_row_Inr [OF assms(1)] obtain ident ts sc ac joined el p cd n
    where cc: "cluster_counts (JObj kvs) = Inr (JObj cd, n)"
      and row: "row = summary_items ident ts sc ac joined el p cd n"
    by blast
  from cluster_counts_legacy [OF assms(2,3) cc] obtain post where
    post: "dict_get kvs ''measurements_post'' (JObj []) = JObj post"
    and len: "py_len (dict_get post ''deployments'' (JObj [])) = Inr n"
    and cl: "if truthy (dict_get post ''cluster'' (JObj []))
              then JObj cd = dict_get post ''cluster'' (JObj [])
              else \<exists>pre. dict_get kvs ''measurements_pre'' (JObj []) = JObj pre
                     \<and> JObj cd = dict_get pre ''cluster'' (JObj [])"
    by blast
  have cl': "if truthy (dict_get post ''cluster'' (JObj []))
             then dict_get post ''cluster'' (JObj []) = JObj cd
             else \<exists>pre. dict_get kvs ''measurements_pre'' (JObj []) = JObj pre
                    \<and> dict_get pre ''cluster'' (JObj []) = JObj cd"
    using cl by (auto split: if_splits)
  have dc: "map_of row ''deployment_count'' = Some (count_field n)"
    "map_of row ''node_count'' = Some (dict_get cd ''node_count'' (JStr []))"
    "map_of row ''eligible_node_count'' = Some (dict_get cd ''eligible_node_count'' (JStr []))"
    unfolding row by (simp_all add: summary_items_lookup)
  have g: "dict_get row ''deployment_count'' JNull = count_field n"
    using dc(1) by (simp add: dict_get_def)
  have cf: "count_field n = (if n = 0 then JStr [] else JInt (int n))"
    by (simp add: count_field_def)
  show ?thesis
    using post cl' len dc(2,3) dc(1) [unfolded cf] count_field_text [of n, folded g]
    by blast
qed

theorem legacy_summary_fields_witness:
  "\<not> truthy (dict_get (obj_items doc_pre_only) ''measurements'' (JList []))
   \<and> \<not> truthy (dict_get (obj_items doc_pre_only) ''measurements_taken'' (JList []))
   \<and> \<not> truthy (dict_get (obj_items doc_legacy) ''measurements'' (JList []))
   \<and> (\<exists>row. summary_row doc_pre_only = Inr row
         \<and> map_of row ''node_count'' = Some (JInt 9)
         \<and> map_of row ''deployment_count'' = Some (JStr [])
         \<and> field_text (dict_get row ''deployment_count'' JNull) = [])
   \<and> (\<exists>row. summary_row doc_legacy = Inr row
         \<and> map_of row ''node_count'' = Some (JInt 8)
         \<and> map_of row ''eligible_node_count'' = Some (JInt 5)
         \<and> map_of row ''deployment_count'' = Some (JInt 1))"
proof -
  have h: "\<not> truthy (dict_get (obj_items doc_pre_only) ''measurements'' (JList []))"
    "\<not> truthy (dict_get (obj_items doc_pre_only) ''measurements_taken'' (JList []))"
    "\<not> truthy (dict_get (obj_items doc_legacy) ''measurements'' (JList []))"
    "\<not> truthy (dict_get (obj_items doc_legacy) ''measurements_taken'' (JList []))"
    by (simp_all add: doc_pre_only_def doc_legacy_def dict_get_def)
  have "\<exists>row. summary_row doc_pre_only = Inr row" "\<exists>row. summary_row doc_legacy = Inr row"
    by (simp_all add: doc_pre_only_def doc_legacy_def summary_defs)
  then obtain r1 r2 where r1: "summary_row (JObj (obj_items doc_pre_only)) = Inr r1"
    and r2: "summary_row (JObj (obj_items doc_legacy)) = Inr r2"
    by (auto simp: doc_pre_only_def doc_legacy_def)
  have o: "JObj (obj_items doc_pre_only) = doc_pre_only" "JObj (obj_items doc_legacy) = doc_legacy"
    by (simp_all add: doc_pre_only_def doc_legacy_def)
  from legacy_summary_fields [OF r1 h(1,2)] have
    "map_of r1 ''node_count'' = Some (JInt 9) \<and> map_of r1 ''deployment_count'' = Some (JStr [])
     \<and> field_text (dict_get r1 ''deployment_count'' JNull) = []"
    by (auto simp: doc_pre_only_def dict_get_def split: if_splits)
  moreover from legacy_summary_fields [OF r2 h(3,4)] have
    "map_of r2 ''node_count'' = Some (JInt 8) \<and> map_of r2 ''eligible_node_count'' = Some (JInt 5)
     \<and> map_of r2 ''deployment_count'' = Some (JInt 1)"
    by (auto simp: doc_legacy_def dict_get_def split: if_splits)
  ultimately show ?thesis
    using h r1 r2 unfolding o by blast
qed

section \<open>Which measurements the deployments export reads\<close>

lemma deployment_measurements_first:
  assumes "map_of kvs ''measurements'' = Some (JList (m # ms))"
  shows "deployment_measurements (JObj kvs) = Inr (JList (m # ms))"
  using assms
  by (simp add: deployment_measurements_def measurements_of_def get_or_JObj dict_get_def)

lemma deployment_doc_agree:
  assumes "map_of kvs ''measurements'' = Some (JList (m # ms))"
    and "\<forall>k. k \<noteq> ''measurements_taken'' \<longrightarrow> map_of kvs' k = map_of kvs k"
  shows "deployment_doc (JObj kvs') rows = deployment_doc (JObj kvs) rows"
proof -
  have g: "dict_get kvs' k d = dict_get kvs k d" if "k \<noteq> ''measurements_taken''" for k d
    using assms(2) that by (simp add: dict_get_def)
  have t: "run_timestamp (JObj kvs') = run_timestamp (JObj kvs)"
    by (simp add: run_timestamp_def get_or_JObj g)
  have c: "cluster_identity (JObj kvs') = cluster_identity (JObj kvs)"
    by (simp add: cluster_identity_def g cong: if_cong)
  have r: "deployment_run_fields (JObj kvs') = deployment_run_fields (JObj kvs)"
    by (simp add: deployment_run_fields_def t c g)
  have "map_of kvs' ''measurements'' = Some (JList (m # ms))"
    using assms by simp
  then have m: "deployment_measurements (JObj kvs') = deployment_measurements (JObj kvs)"
    using deployment_measurements_first [of kvs m ms] deployment_measurements_first [of kvs' m ms]
      assms(1) by simp
  show ?thesis
    by (simp add: deployment_doc_def r m)
qed

lemma run_timestamp_field: "run_timestamp (JObj kvs) = Inr (timestamp_field kvs)"
  by (simp add: run_timestamp_def get_or_JObj timestamp_field_def dict_get_def
      split: option.splits)

lemma deployment_run_fields_timestamp:
  assumes "deployment_run_fields data = Inr run"
  shows "r_timestamp run = timestamp_field (obj_items data)"
proof -
  from assms obtain ts where t: "run_timestamp data = Inr ts" and r: "r_timestamp run = ts"
    by (auto simp: deployment_run_fields_def rbind_eq_Inr)
  from t obtain kvs where "data = JObj kvs"
    unfolding run_timestamp_def by (auto dest: get_or_eq_Inr)
  with t r show ?thesis
    by (simp add: run_timestamp_field)
qed

lemma deployments_files_loop_runs:
  "deployments_files_loop json_files rows = Inr out \<Longrightarrow> Inr data \<in> set json_files \<Longrightarrow>
     deployment_run_fields data = Inr (doc_run data)"
proof (induction json_files arbitrary: rows)
  case Nil
  then show ?case by simp
next
  case (Cons f rest)
  from Cons.prems(1) obtain d rows' where f: "f = Inr d"
    and d: "deployment_doc d rows = Inr rows'"
    and r: "deployments_files_loop rest rows' = Inr out"
    by (auto simp: rbind_eq_Inr)
  show ?case
  proof (cases "data = d")
    case True
    with deployment_doc_Inr [OF d] show ?thesis by simp
  next
    case False
    with Cons.prems(2) f have "Inr data \<in> set rest" by auto
    with Cons.IH [OF r] show ?thesis .
  qed
qed

lemma triples_file: "(data, m, item) \<in> set (triples json_files) \<Longrightarrow> Inr data \<in> set json_files"
  by (auto simp: triples_def doc_triples_def split: sum.splits)

lemma triple_row_measurement_timestamp:
  "dict_get (triple_row (data, m, item)) ''measurement_timestamp'' d =
     measurement_timestamp_of (r_timestamp (doc_run data)) m"
  by (simp add: triple_row_def row_of_def deployment_row_def dict_get_def)

lemma measurement_ok_obj: "measurement_ok m \<Longrightarrow> is_obj m"
  by (simp add: measurement_ok_def)

lemma iter_no_list:
  assumes "\<not> nonempty_list v" and "py_iter v = Inr ms" and "list_all measurement_ok ms"
  shows "ms = []"
proof (cases v)
  case (JList xs)
  with assms(1,2) show ?thesis by (cases xs) auto
next
  case (JStr s)
  with assms(2,3) show ?thesis by (cases s) (auto simp: measurement_ok_def)
next
  case (JObj kvs)
  with assms(2,3) show ?thesis by (cases kvs) (auto simp: measurement_ok_def)
qed (use assms(2) in simp_all)

lemma deployment_measurements_cases:
  assumes "deployment_measurements (JObj kvs) = Inr mj"
  shows "mj = dict_get kvs ''measurements'' (JList [])
       \<or> mj = dict_get kvs ''measurements_taken'' (JList [])
       \<or> mj = JList [dict_get kvs ''measurements_post'' JNull]"
  using assms
  by (auto simp: deployment_measurements_def measurements_of_def get_or_JObj split: if_splits)

lemma cluster_counts_no_list:
  assumes "\<not> nonempty_list (dict_get kvs ''measurements'' (JList []))"
    and "\<not> nonempty_list (dict_get kvs ''measurements_taken'' (JList []))"
    and "\<not> is_obj (dict_get kvs ''measurements_post'' JNull)"
    and "cluster_counts (JObj kvs) = Inr (cd, n)"
  shows "n = 0 \<and> (\<exists>p. dict_get kvs ''measurements_pre'' (JObj []) = JObj p
                    \<and> cd = dict_get p ''cluster'' (JObj []))"
proof -
  let ?M = "dict_get kvs ''measurements'' (JList [])"
  let ?T = "dict_get kvs ''measurements_taken'' (JList [])"
  have nf: False
    if "\<not> nonempty_list v" "py_first v = Inr m0" "py_get m0 ''cluster'' (JObj []) = Inr c"
    for v m0 c
  proof (cases v)
    case (JList xs)
    with that show ?thesis by (cases xs) (auto simp: py_index_def)
  next
    case (JStr s)
    with that show ?thesis by (auto simp: rbind_eq_Inr py_get_def)
  qed (use that in auto)
  have post: "dict_get kvs ''measurements_post'' (JObj []) = JObj []"
    if "is_obj (dict_get kvs ''measurements_post'' (JObj []))"
    using that assms(3) by (auto simp: dict_get_def split: option.splits)
  show ?thesis
  proof (cases "truthy ?M")
    case True
    then have "measurements_of (JObj kvs) = Inr ?M"
      by (simp add: measurements_of_def get_or_JObj)
    with assms(4) True nf [OF assms(1)] show ?thesis
      by (auto simp: cluster_counts_def rbind_eq_Inr)
  next
    case False
    then have m: "measurements_of (JObj kvs) = Inr ?T"
      by (simp add: measurements_of_def get_or_JObj)
    show ?thesis
    proof (cases "truthy ?T")
      case True
      with assms(4) m nf [OF assms(2)] show ?thesis
        by (auto simp: cluster_counts_def rbind_eq_Inr)
    next
      case F: False
      from assms(4) m F obtain po where
        po: "dict_get kvs ''measurements_post'' (JObj []) = JObj po"
        by (auto simp: cluster_counts_def rbind_eq_Inr py_get_eq_Inr)
      with post have "po = []" by simp
      with assms(4) m F po show ?thesis
        by (auto simp: cluster_counts_def rbind_eq_Inr py_get_eq_Inr dict_get_def)
    qed
  qed
qed

text \<open>
  C4. For a document whose \<^verbatim>\<open>measurements\<close> and \<^verbatim>\<open>measurements_taken\<close> are both
  non-empty lists, the measurements collection is the \<^verbatim>\<open>measurements\<close> list; the rows
  \<open>export_deployments_csv\<close> builds for the document are the rows of the entries of that
  list, their number is the sum of the sizes of the deployments mappings of those
  entries, and a document that differs in \<^verbatim>\<open>measurements_taken\<close> only gives the same
  rows.
\<close>

theorem measurements_take_precedence:
  assumes "map_of kvs ''measurements'' = Some (JList (m # ms))"
    and "map_of kvs ''measurements_taken'' = Some (JList (t # ts))"
  shows "doc_measurements (JObj kvs) = m # ms
       \<and> (\<forall>out. deployment_doc (JObj kvs) [] = Inr out \<longrightarrow>
             out = concat (map (measurement_rows (doc_run (JObj kvs))) (m # ms))
           \<and> length out = sum_list (map (\<lambda>x. length (deployments_of x)) (m # ms)))
       \<and> (\<forall>kvs'. (\<forall>k. k \<noteq> ''measurements_taken'' \<longrightarrow> map_of kvs' k = map_of kvs k) \<longrightarrow>
             deployment_doc (JObj kvs') [] = deployment_doc (JObj kvs) [])"
proof -
  have dm: "doc_measurements (JObj kvs) = m # ms"
    by (simp add: doc_measurements_def deployment_measurements_first [OF assms(1)])
  have rows: "out = concat (map (measurement_rows (doc_run (JObj kvs))) (m # ms))
              \<and> length out = sum_list (map (\<lambda>x. length (deployments_of x)) (m # ms))"
    if "deployment_doc (JObj kvs) [] = Inr out" for out
  proof -
    have o: "out = concat (map (measurement_rows (doc_run (JObj kvs))) (m # ms))"
      using deployment_doc_Inr [OF that] dm by simp
    have "length (concat (map (measurement_rows run) xs)) =
            sum_list (map (\<lambda>x. length (deployments_of x)) xs)" for run xs
      by (induction xs) (simp_all add: measurement_rows_def)
    with o show ?thesis by (simp add: measurement_rows_def)
  qed
  show ?thesis
    using dm rows deployment_doc_agree [OF assms(1)] by blast
qed

theorem measurements_take_precedence_witness:
  "map_of (obj_items doc_new) ''measurements'' =
     Some (JList [
          JObj [(''timestamp'', JStr ''m1''),
                (''cluster'', JObj [(''node_count'', JInt 3)]),
                (''deployments'',
                   JObj [(''a'', JObj [(''total_pods'', JInt 4)]), (''b'', JObj [])])],
          JObj [(''deployments'', JObj [(''a'', JObj [(''name'', JStr ''x,y'')])])]])
   \<and> map_of (obj_items doc_new) ''measurements_taken'' =
       Some (JList [JObj [(''deployments'', JObj [(''z'', JObj [])])]])
   \<and> (\<exists>out. deployment_doc doc_new [] = Inr out \<and> length out = 3
         \<and> map (\<lambda>r. dict_get r ''deployment_name'' JNull) out = [JStr ''a'', JStr ''b'', JStr ''x,y''])"
proof -
  have a: "map_of (obj_items doc_new) ''measurements'' =
     Some (JList (
          JObj [(''timestamp'', JStr ''m1''),
                (''cluster'', JObj [(''node_count'', JInt 3)]),
                (''deployments'',
                   JObj [(''a'', JObj [(''total_pods'', JInt 4)]), (''b'', JObj [])])] #
          [JObj [(''deployments'', JObj [(''a'', JObj [(''name'', JStr ''x,y'')])])]]))"
    and b: "map_of (obj_items doc_new) ''measurements_taken'' =
       Some (JList (JObj [(''deployments'', JObj [(''z'', JObj [])])] # []))"
    by (simp_all add: doc_new_def)
  have o: "JObj (obj_items doc_new) = doc_new"
    by (simp add: doc_new_def)
  have "\<exists>out. deployment_doc doc_new [] = Inr out"
    by (simp add: doc_new_def run_defs)
  then obtain out where out: "deployment_doc doc_new [] = Inr out" ..
  from measurements_take_precedence [OF a b, unfolded o] out
  have "length out =
          sum_list (map (\<lambda>x. length (deployments_of x))
            (JObj [(''timestamp'', JStr ''m1''),
                (''cluster'', JObj [(''node_count'', JInt 3)]),
                (''deployments'',
                   JObj [(''a'', JObj [(''total_pods'', JInt 4)]), (''b'', JObj [])])] #
          [JObj [(''deployments'', JObj [(''a'', JObj [(''name'', JStr ''x,y'')])])]]))"
    by blast
  then have "length out = 3"
    by (simp add: deployments_of_def dict_get_def)
  moreover have "map (\<lambda>r. dict_get r ''deployment_name'' JNull) out =
                   [JStr ''a'', JStr ''b'', JStr ''x,y'']"
    using out by (auto simp: doc_new_def run_defs deployment_row_def)
  ultimately show ?thesis
    using a b out by auto
qed

text \<open>
  C7. When the loop of \<open>export_deployments_csv\<close> ends without an exception, the
  \<^verbatim>\<open>measurement_timestamp\<close> of the row of each (run, measurement, deployment) triple is
  the value under the measurement's own \<^verbatim>\<open>timestamp\<close> key when the measurement has
  the key, and else the run-level timestamp: the document's \<^verbatim>\<open>timestamp\<close> field, else
  its \<^verbatim>\<open>start_time\<close> field, else empty.
\<close>

theorem measurement_timestamp_default:
  assumes "deployments_files_loop json_files [] = Inr rows"
  shows "map (\<lambda>r. dict_get r ''measurement_timestamp'' JNull) rows =
           map (\<lambda>t. case t of (data, m, item) \<Rightarrow>
                       (case map_of (obj_items m) ''timestamp'' of
                          Some ts \<Rightarrow> ts
                        | None \<Rightarrow> timestamp_field (obj_items data)))
             (triples json_files)"
proof -
  have rows: "rows = map triple_row (triples json_files)"
    using deployments_files_loop_Inr [OF assms] by simp
  have "dict_get (triple_row t) ''measurement_timestamp'' JNull =
          (case t of (data, m, item) \<Rightarrow>
             (case map_of (obj_items m) ''timestamp'' of
                Some ts \<Rightarrow> ts
              | None \<Rightarrow> timestamp_field (obj_items data)))"
    if "t \<in> set (triples json_files)" for t
  proof -
    obtain data m item where t: "t = (data, m, item)"
      by (cases t) auto
    have "deployment_run_fields data = Inr (doc_run data)"
      using deployments_files_loop_runs [OF assms] triples_file that t by blast
    then have "r_timestamp (doc_run data) = timestamp_field (obj_items data)"
      by (rule deployment_run_fields_timestamp)
    then show ?thesis
      unfolding t by (simp add: triple_row_measurement_timestamp measurement_timestamp_of_def)
  qed
  then show ?thesis
    unfolding rows by simp
qed

theorem measurement_timestamp_default_witness:
  "(\<exists>rows. deployments_files_loop [Inr doc_new, Inr doc_legacy] [] = Inr rows
      \<and> map (\<lambda>r. dict_get r ''measurement_timestamp'' JNull) rows =
          [JStr ''m1'', JStr ''m1'', JStr ''t1'', JStr ''t2''])"
proof -
  have "\<exists>rows. deployments_files_loop [Inr doc_new, Inr doc_legacy] [] = Inr rows"
    by (simp add: doc_new_def doc_legacy_def run_defs)
  then obtain rows
    where r: "deployments_files_loop [Inr doc_new, Inr doc_legacy] [] = Inr rows" ..
  have "map (\<lambda>t. case t of (data, m, item) \<Rightarrow>
                       (case map_of (obj_items m) ''timestamp'' of
                          Some ts \<Rightarrow> ts
                        | None \<Rightarrow> timestamp_field (obj_items data)))
             (triples [Inr doc_new, Inr doc_legacy]) =
          [JStr ''m1'', JStr ''m1'', JStr ''t1'', JStr ''t2'']"
    by (simp add: view_defs doc_new_def doc_legacy_def run_defs timestamp_field_def)
  with measurement_timestamp_default [OF r] r show ?thesis by simp
qed

text \<open>
  C10. For a document with no non-empty \<^verbatim>\<open>measurements\<close> list, no non-empty
  \<^verbatim>\<open>measurements_taken\<close> list and no \<^verbatim>\<open>measurements_post\<close> object,
  \<open>export_deployments_csv\<close> adds no row: whenever the body of its loop returns, the
  rows are those it started with, and it does return when the two lists are absent or
  empty, \<^verbatim>\<open>measurements_post\<close> is absent and the fields of the run can be read. What
  \<^verbatim>\<open>measurements_pre\<close> records is not read. The row \<open>export_summary_csv\<close> builds
  for such a document does take its cluster fields from the cluster block of
  \<^verbatim>\<open>measurements_pre\<close>.
\<close>

theorem pre_only_gives_no_deployment_rows:
  assumes "\<not> nonempty_list (dict_get kvs ''measurements'' (JList []))"
    and "\<not> nonempty_list (dict_get kvs ''measurements_taken'' (JList []))"
    and "\<not> is_obj (dict_get kvs ''measurements_post'' JNull)"
  shows "(\<forall>out. deployment_doc (JObj kvs) rows = Inr out \<longrightarrow> out = rows)
       \<and> (dict_get kvs ''measurements'' (JList []) = JList []
            \<and> dict_get kvs ''measurements_taken'' (JList []) = JList []
            \<and> map_of kvs ''measurements_post'' = None \<longrightarrow>
          deployment_doc (JObj kvs) rows =
            rbind (deployment_run_fields (JObj kvs)) (\<lambda>run. Inr rows))
       \<and> (\<forall>row. summary_row (JObj kvs) = Inr row \<longrightarrow>
            (\<exists>p c. dict_get kvs ''measurements_pre'' (JObj []) = JObj p
               \<and> dict_get p ''cluster'' (JObj []) = JObj c
               \<and> map_of row ''node_count'' = Some (dict_get c ''node_count'' (JStr []))
               \<and> map_of row ''eligible_node_count'' =
                   Some (dict_get c ''eligible_node_count'' (JStr []))
               \<and> map_of row ''deployment_count'' = Some (JStr [])))"
proof -
  have a: "out = rows" if d: "deployment_doc (JObj kvs) rows = Inr out" for out
  proof -
    from d obtain run mj ms where m: "deployment_measurements (JObj kvs) = Inr mj"
      and i: "py_iter mj = Inr ms" and l: "measurements_loop run ms rows = Inr out"
      by (auto simp: deployment_doc_def rbind_eq_Inr)
    from l have ok: "list_all measurement_ok ms"
      and out: "out = rows @ concat (map (measurement_rows run) ms)"
      by (simp_all add: measurements_loop_eq split: if_splits)
    from deployment_measurements_cases [OF m] have "ms = []"
    proof (elim disjE)
      assume "mj = JList [dict_get kvs ''measurements_post'' JNull]"
      with i ok assms(3) show ?thesis
        by (auto dest: measurement_ok_obj)
    qed (use assms(1,2) i ok in \<open>auto intro: iter_no_list\<close>)
    with out show ?thesis by simp
  qed
  have b: "deployment_doc (JObj kvs) rows =
             rbind (deployment_run_fields (JObj kvs)) (\<lambda>run. Inr rows)"
    if "dict_get kvs ''measurements'' (JList []) = JList []"
      "dict_get kvs ''measurements_taken'' (JList []) = JList []"
      "map_of kvs ''measurements_post'' = None"
  proof -
    have "deployment_measurements (JObj kvs) = Inr (JList [])"
      using that
      by (simp add: deployment_measurements_def measurements_of_def get_or_JObj dict_get_def)
    then show ?thesis
      by (simp add: deployment_doc_def)
  qed
  have c: "\<exists>p c. dict_get kvs ''measurements_pre'' (JObj []) = JObj p
               \<and> dict_get p ''cluster'' (JObj []) = JObj c
               \<and> map_of row ''node_count'' = Some (dict_get c ''node_count'' (JStr []))
               \<and> map_of row ''eligible_node_count'' =
                   Some (dict_get c ''eligible_node_count'' (JStr []))
               \<and> map_of row ''deployment_count'' = Some (JStr [])"
    if "summary_row (JObj kvs) = Inr row" for row
  proof -
    from summary_row_Inr [OF that] obtain ident ts sc ac joined el p cd n
      where cc: "cluster_counts (JObj kvs) = Inr (JObj cd, n)"
        and row: "row = summary_items ident ts sc ac joined el p cd n"
      by blast
    from cluster_counts_no_list [OF assms cc] obtain p' where
      "dict_get kvs ''measurements_pre'' (JObj []) = JObj p'"
      "dict_get p' ''cluster'' (JObj []) = JObj cd" "n = 0"
      by auto
    then show ?thesis
      unfolding row by (simp add: summary_items_lookup count_field_def)
  qed
  from a b c show ?thesis by blast
qed

theorem pre_only_gives_no_deployment_rows_witness:
  "\<not> nonempty_list (dict_get (obj_items doc_pre_only) ''measurements'' (JList []))
   \<and> \<not> nonempty_list (dict_get (obj_items doc_pre_only) ''measurements_taken'' (JList []))
   \<and> \<not> is_obj (dict_get (obj_items doc_pre_only) ''measurements_post'' JNull)
   \<and> map_of (obj_items doc_pre_only) ''measurements_pre'' =
       Some (JObj [(''cluster'', JObj [(''node_count'', JInt 9)]),
                   (''deployments'', JObj [(''p'', JObj [])])])
   \<and> deployment_doc doc_pre_only [] = Inr []
   \<and> (\<exists>row. summary_row doc_pre_only = Inr row \<and> map_of row ''node_count'' = Some (JInt 9))"
proof -
  have h: "\<not> nonempty_list (dict_get (obj_items doc_pre_only) ''measurements'' (JList []))"
    "\<not> nonempty_list (dict_get (obj_items doc_pre_only) ''measurements_taken'' (JList []))"
    "\<not> is_obj (dict_get (obj_items doc_pre_only) ''measurements_post'' JNull)"
    and p: "map_of (obj_items doc_pre_only) ''measurements_pre'' =
       Some (JObj [(''cluster'', JObj [(''node_count'', JInt 9)]),
                   (''deployments'', JObj [(''p'', JObj [])])])"
    and e: "dict_get (obj_items doc_pre_only) ''measurements'' (JList []) = JList []"
      "dict_get (obj_items doc_pre_only) ''measurements_taken'' (JList []) = JList []"
      "map_of (obj_items doc_pre_only) ''measurements_post'' = None"
    by (simp_all add: doc_pre_only_def dict_get_def)
  have o: "JObj (obj_items doc_pre_only) = doc_pre_only"
    by (simp add: doc_pre_only_def)
  note inst = pre_only_gives_no_deployment_rows [OF h, unfolded o]
  have "\<exists>run. deployment_run_fields doc_pre_only = Inr run"
    by (simp add: doc_pre_only_def run_defs)
  then have a: "deployment_doc doc_pre_only [] = Inr []"
    using inst [of "[]"] e by auto
  have "\<exists>row. summary_row doc_pre_only = Inr row"
    by (simp add: doc_pre_only_def summary_defs)
  then obtain row where r: "summary_row doc_pre_only = Inr row" ..
  with inst [of "[]"] p have "map_of row ''node_count'' = Some (JInt 9)"
    by (auto simp: dict_get_def)
  with h p a r show ?thesis by blast
qed

section \<open>Writing the tables\<close>

lemma dict_get_keys:
  assumes "distinct (map fst r)"
  shows "map (\<lambda>k. dict_get r k d) (map fst r) = map snd r"
proof -
  have "dict_get r (fst x) d = snd x" if "x \<in> set r" for x
    using map_of_is_SomeI [OF assms, of "fst x" "snd x"] that by (simp add: dict_get_def)
  then show ?thesis
    by (simp add: comp_def)
qed

lemma dict_to_list_own_keys:
  "distinct (map fst r) \<Longrightarrow> dict_to_list (map fst r) r = Inr (map snd r)"
  using dict_get_keys [of r "JStr []"] by (simp add: dict_to_list_def list_ex_iff)

lemma writerows_same_keys:
  assumes "distinct cols" and "\<forall>r \<in> set rows. map fst r = cols"
  shows "writerows cols rows =
           Inr (concat (map (\<lambda>r. csv_record (map field_text (map snd r))) rows))"
  using assms(2)
proof (induction rows)
  case Nil
  then show ?case by simp
next
  case (Cons r rows)
  have "dict_to_list cols r = Inr (map snd r)"
    using dict_to_list_own_keys [of r] Cons.prems assms(1) by simp
  with Cons show ?case by simp
qed

lemma write_csv_same_keys:
  assumes "distinct cols" and "\<forall>r \<in> set (first_row # rest). map fst r = cols"
  shows "write_csv output_file first_row (first_row # rest) w =
           Inr (w\<lparr>files := (files w)(output_file \<mapsto>
                  csv_record cols
                  @ concat (map (\<lambda>r. csv_record (map field_text (map snd r)))
                             (first_row # rest)))\<rparr>)"
proof -
  have "map fst first_row = cols"
    using assms(2) by simp
  then show ?thesis
    using writerows_same_keys [OF assms] by (simp add: write_csv_def)
qed

lemma summary_loop_keys:
  "summary_loop json_files rows = Inr out \<Longrightarrow> \<forall>r \<in> set rows. map fst r = summary_columns \<Longrightarrow>
     (\<forall>r \<in> set out. map fst r = summary_columns) \<and> length out = length rows + length json_files"
proof (induction json_files arbitrary: rows)
  case Nil
  then show ?case by simp
next
  case (Cons f rest)
  from Cons.prems(1) obtain data row where "summary_row data = Inr row"
    and r: "summary_loop rest (rows @ [row]) = Inr out"
    by (auto simp: rbind_eq_Inr)
  then have "map fst row = summary_columns"
    using summary_row_Inr [of data row] by (auto simp: summary_items_keys)
  with Cons.IH [OF r] Cons.prems(2) show ?case by auto
qed

lemma deployment_columns_distinct: "distinct deployment_columns"
  by code_simp

lemma triple_row_keys: "map fst (triple_row t) = deployment_columns"
  by (cases t) (simp add: triple_row_def row_of_def deployment_row_def deployment_columns_def)


lemma write_summary_rows:
  assumes "summary_loop json_files [] = Inr (r # rs)"
  shows "write_csv output_file r (r # rs) w =
           Inr (w\<lparr>files := (files w)(output_file \<mapsto> csv_table r (r # rs))\<rparr>)"
proof -
  have k: "\<forall>x \<in> set (r # rs). map fst x = summary_columns"
    using summary_loop_keys [OF assms] by simp
  then have "map fst r = summary_columns" by simp
  with write_csv_same_keys [OF summary_columns_distinct k] show ?thesis
    by (simp add: csv_table_def)
qed

lemma write_deployment_rows:
  assumes "deployments_files_loop json_files [] = Inr (r # rs)"
  shows "write_csv output_file r (r # rs) w =
           Inr (w\<lparr>files := (files w)(output_file \<mapsto> csv_table r (r # rs))\<rparr>)"
proof -
  have "r # rs = map triple_row (triples json_files)"
    using deployments_files_loop_Inr [OF assms] by simp
  then have k: "\<forall>x \<in> set (r # rs). map fst x = deployment_columns"
    by (auto simp: triple_row_keys)
  then have "map fst r = deployment_columns" by simp
  with write_csv_same_keys [OF deployment_columns_distinct k] show ?thesis
    by (simp add: csv_table_def)
qed

lemma export_summary_empty:
  "summary_loop json_files [] = Inr [] \<Longrightarrow>
     export_summary_csv json_files output_file w =
       Inr (logger WARNING ''No data to write to summary CSV'' w)"
  by (simp add: export_summary_csv_def)

lemma export_deployments_empty:
  "deployments_files_loop json_files [] = Inr [] \<Longrightarrow>
     export_deployments_csv json_files output_file w =
       Inr (logger WARNING ''No data to write to deployments CSV'' w)"
  by (simp add: export_deployments_csv_def)

lemma export_summary_rows:
  "summary_loop json_files [] = Inr (r # rs) \<Longrightarrow>
     export_summary_csv json_files output_file w =
       Inr (logger INFO
             (''Wrote '' @ str_nat (length (r # rs)) @ '' summary rows to '' @ output_file)
             (w\<lparr>files := (files w)(output_file \<mapsto> csv_table r (r # rs))\<rparr>))"
  using write_summary_rows [of json_files r rs output_file w]
  by (simp add: export_summary_csv_def)

lemma export_deployments_rows:
  "deployments_files_loop json_files [] = Inr (r # rs) \<Longrightarrow>
     export_deployments_csv json_files output_file w =
       Inr (logger INFO
             (''Wrote '' @ str_nat (length (r # rs)) @ '' deployment rows to '' @ output_file)
             (w\<lparr>files := (files w)(output_file \<mapsto> csv_table r (r # rs))\<rparr>))"
  using write_deployment_rows [of json_files r rs output_file w]
  by (simp add: export_deployments_csv_def)

section \<open>Reading back what the writer wrote\<close>

declare py_lines.simps(2) [simp del]

lemma py_lines_LF: "py_lines (CHR 0x0A # cs) = [CHR 0x0A] # py_lines cs"
  by (simp add: py_lines.simps(2))

lemma py_lines_CRLF: "py_lines (CHR 0x0D # CHR 0x0A # cs) = [CHR 0x0D, CHR 0x0A] # py_lines cs"
  by (simp add: py_lines.simps(2))

lemma py_lines_CR_end: "py_lines [CHR 0x0D] = [[CHR 0x0D]]"
  by (simp add: py_lines.simps(2))

lemma py_lines_CR:
  "d \<noteq> CHR 0x0A \<Longrightarrow> py_lines (CHR 0x0D # d # ds) = [CHR 0x0D] # py_lines (d # ds)"
  by (simp add: py_lines.simps(2) [of "CHR 0x0D"])

lemma py_lines_char:
  "c \<noteq> CHR 0x0A \<Longrightarrow> c \<noteq> CHR 0x0D \<Longrightarrow>
     py_lines (c # cs) = (case py_lines cs of [] \<Rightarrow> [[c]] | l # ls \<Rightarrow> (c # l) # ls)"
  by (simp add: py_lines.simps(2) [of c])

lemma py_lines_Nil: "py_lines s = [] \<longleftrightarrow> s = []"
proof (cases s)
  case Nil
  then show ?thesis by simp
next
  case (Cons c cs)
  then show ?thesis
    by (simp add: py_lines.simps(2) [of c cs] split: list.splits)
qed

lemma tokens_Nil [simp]: "tokens [] = []"
  by (simp add: tokens_def)

lemma tokens_LF: "tokens (CHR 0x0A # rest) = Ch CHR 0x0A # EOL # tokens rest"
  by (simp add: tokens_def py_lines_LF)

lemma tokens_Cons:
  assumes "rest \<noteq> []"
  shows "tokens (c # rest) =
           Ch c # (if c = CHR 0x0A \<or> (c = CHR 0x0D \<and> hd rest \<noteq> CHR 0x0A) then [EOL] else [])
           @ tokens rest"
proof -
  from assms obtain d ds where rest: "rest = d # ds" by (cases rest) auto
  obtain l ls where l: "py_lines rest = l # ls"
    using assms py_lines_Nil [of rest] by (cases "py_lines rest") auto
  consider "c = CHR 0x0A" | "c = CHR 0x0D" "d = CHR 0x0A" | "c = CHR 0x0D" "d \<noteq> CHR 0x0A"
    | "c \<noteq> CHR 0x0A" "c \<noteq> CHR 0x0D"
    by blast
  then show ?thesis
  proof cases
    case 1
    then show ?thesis by (simp add: tokens_LF)
  next
    case 2
    then show ?thesis
      unfolding rest by (simp add: tokens_def py_lines_CRLF py_lines_LF)
  next
    case 3
    then show ?thesis
      unfolding rest by (simp add: tokens_def py_lines_CR)
  next
    case 4
    then show ?thesis
      by (simp add: tokens_def py_lines_char [of c rest] l)
  qed
qed

declare parse_process_char.simps [simp del]

lemma read_Ch:
  "read_tokens p (Ch c # ts) = rbind (parse_process_char p (Ch c)) (\<lambda>p'. read_tokens p' ts)"
  by simp

lemma quoted_EOL:
  "rd_state p = IN_QUOTED_FIELD \<Longrightarrow> read_tokens p (EOL # ts) = read_tokens p ts"
  by (simp add: parse_process_char.simps)

declare read_tokens.simps(2) [simp del]

lemma field_limit_pos: "0 < field_limit"
  by (simp add: field_limit_def)

lemma add_char_room:
  "length (rd_field p) < field_limit \<Longrightarrow>
     parse_add_char p c = Inr (p\<lparr>rd_field := rd_field p @ [c]\<rparr>)"
  by (simp add: parse_add_char_def)

lemma add_char_full:
  "field_limit \<le> length (rd_field p) \<Longrightarrow> parse_add_char p c = Inl CsvError"
  by (simp add: parse_add_char_def)

lemma quoted_char:
  "rd_state p = IN_QUOTED_FIELD \<Longrightarrow> c \<noteq> CHR 0x22 \<Longrightarrow>
     parse_process_char p (Ch c) = parse_add_char p c"
  by (simp add: parse_process_char.simps)

lemma quoted_quote:
  "rd_state p = IN_QUOTED_FIELD \<Longrightarrow>
     parse_process_char p (Ch CHR 0x22) = Inr (p\<lparr>rd_state := QUOTE_IN_QUOTED_FIELD\<rparr>)"
  by (simp add: parse_process_char.simps)

lemma quote_quote:
  "rd_state p = QUOTE_IN_QUOTED_FIELD \<Longrightarrow>
     parse_process_char p (Ch CHR 0x22) =
       rbind (parse_add_char p CHR 0x22) (\<lambda>q. Inr (q\<lparr>rd_state := IN_QUOTED_FIELD\<rparr>))"
  by (simp add: parse_process_char.simps)

lemma state_idem: "rd_state p = st \<Longrightarrow> p\<lparr>rd_state := st\<rparr> = p"
  by (cases p) simp

lemma state_kept:
  "rd_state p = st \<Longrightarrow> p\<lparr>rd_field := f, rd_state := st\<rparr> = p\<lparr>rd_field := f\<rparr>"
  by (cases p) simp

text \<open>
  Reading the inside of a quoted field and its closing quote: the characters are added
  one by one, and the reading fails at the first that finds the field full.
\<close>

lemma read_quoted:
  assumes "rd_state p = IN_QUOTED_FIELD" and "rest \<noteq> []"
    and "length (rd_field p) \<le> field_limit"
  shows "read_tokens p (tokens (quoted_text s @ CHR 0x22 # rest)) =
           (if length (rd_field p) + length s \<le> field_limit
            then read_tokens (p\<lparr>rd_state := QUOTE_IN_QUOTED_FIELD, rd_field := rd_field p @ s\<rparr>)
                   (tokens rest)
            else Inl CsvError)"
  using assms(1,3)
proof (induction s arbitrary: p)
  case Nil
  then show ?case
    using assms(2) by (simp add: quoted_text_def tokens_Cons read_Ch quoted_quote)
next
  case (Cons x s)
  let ?more = "quoted_text s @ CHR 0x22 # rest"
  let ?q = "p\<lparr>rd_field := rd_field p @ [x]\<rparr>"
  have more: "?more \<noteq> []" by simp
  have step: "read_tokens p (tokens (quoted_text (x # s) @ CHR 0x22 # rest)) =
                rbind (parse_add_char p x) (\<lambda>q. read_tokens q (tokens ?more))"
  proof (cases "x = CHR 0x22")
    case True
    have "quoted_text (x # s) @ CHR 0x22 # rest = CHR 0x22 # CHR 0x22 # ?more"
      using True by (simp add: quoted_text_def)
    then show ?thesis
      using Cons.prems(1) True
      by (cases "parse_add_char p CHR 0x22")
        (auto simp: tokens_Cons read_Ch quoted_quote quote_quote parse_add_char_def
          state_kept split: if_splits)
  next
    case False
    have "quoted_text (x # s) @ CHR 0x22 # rest = x # ?more"
      using False by (simp add: quoted_text_def)
    then show ?thesis
      using Cons.prems(1) False
      by (cases "parse_add_char p x")
        (auto simp: tokens_Cons [OF more] read_Ch quoted_char quoted_EOL parse_add_char_def
          split: if_splits)
  qed
  show ?case
  proof (cases "length (rd_field p) < field_limit")
    case True
    have "read_tokens p (tokens (quoted_text (x # s) @ CHR 0x22 # rest)) =
            read_tokens ?q (tokens ?more)"
      using step True by (simp add: add_char_room)
    also have "\<dots> = (if length (rd_field ?q) + length s \<le> field_limit
                       then read_tokens
                              (?q\<lparr>rd_state := QUOTE_IN_QUOTED_FIELD, rd_field := rd_field ?q @ s\<rparr>)
                              (tokens rest)
                       else Inl CsvError)"
      using Cons.prems(1) True by (intro Cons.IH) simp_all
    finally show ?thesis by simp
  next
    case False
    then show ?thesis
      using step by (simp add: add_char_full)
  qed
qed

lemma in_field_char:
  "rd_state p = IN_FIELD \<Longrightarrow> \<not> special_char c \<Longrightarrow>
     parse_process_char p (Ch c) = parse_add_char p c"
  by (simp add: parse_process_char.simps special_char_def)

lemma start_field_char:
  "rd_state p = START_FIELD \<Longrightarrow> \<not> special_char c \<Longrightarrow>
     parse_process_char p (Ch c) =
       rbind (parse_add_char p c) (\<lambda>q. Inr (q\<lparr>rd_state := IN_FIELD\<rparr>))"
  by (simp add: parse_process_char.simps expecting_field_def special_char_def)

lemma start_field_quote:
  "rd_state p = START_FIELD \<Longrightarrow>
     parse_process_char p (Ch CHR 0x22) = Inr (p\<lparr>rd_state := IN_QUOTED_FIELD\<rparr>)"
  by (simp add: parse_process_char.simps expecting_field_def)

lemma read_raw:
  assumes "rd_state p = IN_FIELD" and "rest \<noteq> []" and "\<not> list_ex special_char s"
    and "length (rd_field p) \<le> field_limit"
  shows "read_tokens p (tokens (s @ rest)) =
           (if length (rd_field p) + length s \<le> field_limit
            then read_tokens (p\<lparr>rd_field := rd_field p @ s\<rparr>) (tokens rest)
            else Inl CsvError)"
  using assms(1,3,4)
proof (induction s arbitrary: p)
  case Nil
  then show ?case by simp
next
  case (Cons x s)
  let ?q = "p\<lparr>rd_field := rd_field p @ [x]\<rparr>"
  have x: "\<not> special_char x" "x \<noteq> CHR 0x0A" "x \<noteq> CHR 0x0D"
    using Cons.prems(2) by (auto simp: special_char_def)
  have more: "s @ rest \<noteq> []"
    using assms(2) by simp
  have step: "read_tokens p (tokens ((x # s) @ rest)) =
                rbind (parse_add_char p x) (\<lambda>q. read_tokens q (tokens (s @ rest)))"
    using x Cons.prems(1) tokens_Cons [OF more, of x]
    by (simp add: read_Ch in_field_char)
  show ?case
  proof (cases "length (rd_field p) < field_limit")
    case True
    have "read_tokens p (tokens ((x # s) @ rest)) = read_tokens ?q (tokens (s @ rest))"
      using step True by (simp add: add_char_room)
    also have "\<dots> = (if length (rd_field ?q) + length s \<le> field_limit
                       then read_tokens (?q\<lparr>rd_field := rd_field ?q @ s\<rparr>) (tokens rest)
                       else Inl CsvError)"
      using Cons.prems True by (intro Cons.IH) simp_all
    finally show ?thesis by simp
  next
    case False
    then show ?thesis
      using step by (simp add: add_char_full)
  qed
qed

lemma read_field:
  assumes "rd_state p = START_FIELD" and "rd_field p = []" and "rest \<noteq> []"
  shows "read_tokens p (tokens (csv_field s @ rest)) =
           (if within_limit s
            then read_tokens (p\<lparr>rd_state := field_end_state s, rd_field := s\<rparr>) (tokens rest)
            else Inl CsvError)"
proof (cases "list_ex special_char s")
  case True
  let ?q = "p\<lparr>rd_state := IN_QUOTED_FIELD\<rparr>"
  have more: "quoted_text s @ CHR 0x22 # rest \<noteq> []" by simp
  have "csv_field s @ rest = CHR 0x22 # quoted_text s @ CHR 0x22 # rest"
    using True by (simp add: csv_field_def quoted_text_def)
  then have "read_tokens p (tokens (csv_field s @ rest)) =
               read_tokens ?q (tokens (quoted_text s @ CHR 0x22 # rest))"
    using assms(1) tokens_Cons [OF more, of "CHR 0x22"]
    by (simp add: read_Ch start_field_quote)
  also have "\<dots> = (if length (rd_field ?q) + length s \<le> field_limit
                     then read_tokens
                            (?q\<lparr>rd_state := QUOTE_IN_QUOTED_FIELD, rd_field := rd_field ?q @ s\<rparr>)
                            (tokens rest)
                     else Inl CsvError)"
    using assms(2,3) by (intro read_quoted) simp_all
  finally show ?thesis
    using True assms(2) by (simp add: field_end_state_def within_limit_def)
next
  case False
  show ?thesis
  proof (cases s)
    case Nil
    have "p\<lparr>rd_state := START_FIELD, rd_field := []\<rparr> = p"
      using assms(1,2) by (cases p) simp
    with Nil False show ?thesis
      by (simp add: csv_field_def field_end_state_def within_limit_def)
  next
    case (Cons x s')
    let ?q = "p\<lparr>rd_field := [x], rd_state := IN_FIELD\<rparr>"
    have x: "\<not> special_char x" "x \<noteq> CHR 0x0A" "x \<noteq> CHR 0x0D" and s': "\<not> list_ex special_char s'"
      using False Cons by (auto simp: special_char_def)
    have more: "s' @ rest \<noteq> []"
      using assms(3) by simp
    have "read_tokens p (tokens (csv_field s @ rest)) = read_tokens ?q (tokens (s' @ rest))"
      using False Cons x assms(1,2) tokens_Cons [OF more, of x] field_limit_pos
      by (simp add: csv_field_def read_Ch start_field_char add_char_room)
    also have "\<dots> = (if length (rd_field ?q) + length s' \<le> field_limit
                       then read_tokens (?q\<lparr>rd_field := rd_field ?q @ s'\<rparr>) (tokens rest)
                       else Inl CsvError)"
      using assms(3) s' field_limit_pos by (intro read_raw) simp_all
    finally show ?thesis
      using False Cons by (simp add: field_end_state_def within_limit_def)
  qed
qed

lemma field_end_cases:
  "field_end_state s = START_FIELD \<or> field_end_state s = IN_FIELD
   \<or> field_end_state s = QUOTE_IN_QUOTED_FIELD"
  by (simp add: field_end_state_def)

lemma after_field_comma:
  assumes "rd_state p = START_FIELD \<or> rd_state p = IN_FIELD \<or> rd_state p = QUOTE_IN_QUOTED_FIELD"
  shows "parse_process_char p (Ch CHR '','') =
           Inr (p\<lparr>rd_fields := rd_fields p @ [rd_field p], rd_field := [],
                  rd_state := START_FIELD\<rparr>)"
  using assms
  by (auto simp: parse_process_char.simps expecting_field_def parse_save_field_def state_idem)

lemma after_field_CR:
  assumes "rd_state p = START_FIELD \<or> rd_state p = IN_FIELD \<or> rd_state p = QUOTE_IN_QUOTED_FIELD"
  shows "parse_process_char p (Ch CHR 0x0D) =
           Inr (p\<lparr>rd_fields := rd_fields p @ [rd_field p], rd_field := [],
                  rd_state := EAT_CRNL\<rparr>)"
  using assms
  by (auto simp: parse_process_char.simps expecting_field_def parse_save_field_def
      end_of_line_def)

lemma eat_LF:
  "rd_state p = EAT_CRNL \<Longrightarrow> parse_process_char p (Ch CHR 0x0A) = Inr p"
  by (simp add: parse_process_char.simps)

lemma eat_EOL:
  "rd_state p = EAT_CRNL \<Longrightarrow>
     read_tokens p (EOL # ts) =
       rbind (read_tokens parse_reset ts) (\<lambda>recs. Inr (rd_fields p # recs))"
  by (simp add: read_tokens.simps(2) parse_process_char.simps)

lemma tokens_CRLF:
  "tokens (CHR 0x0D # CHR 0x0A # rest) = Ch CHR 0x0D # Ch CHR 0x0A # EOL # tokens rest"
  by (simp add: tokens_Cons tokens_LF)

lemma read_record_end:
  assumes "rd_state p = START_FIELD \<or> rd_state p = IN_FIELD \<or> rd_state p = QUOTE_IN_QUOTED_FIELD"
  shows "read_tokens p (tokens (CHR 0x0D # CHR 0x0A # rest)) =
           rbind (read_tokens parse_reset (tokens rest))
             (\<lambda>recs. Inr ((rd_fields p @ [rd_field p]) # recs))"
  by (simp add: tokens_CRLF read_Ch after_field_CR [OF assms] eat_LF eat_EOL)

lemma read_cells:
  assumes "rd_state p = START_FIELD" and "rd_field p = []"
  shows "read_tokens p (tokens (join '','' (map csv_field (c # cs)) @ CHR 0x0D # CHR 0x0A # rest)) =
           (if list_all within_limit (c # cs)
            then rbind (read_tokens parse_reset (tokens rest))
                   (\<lambda>recs. Inr ((rd_fields p @ c # cs) # recs))
            else Inl CsvError)"
  using assms
proof (induction cs arbitrary: c p)
  case Nil
  let ?p = "p\<lparr>rd_state := field_end_state c, rd_field := c\<rparr>"
  have "read_tokens p (tokens (csv_field c @ CHR 0x0D # CHR 0x0A # rest)) =
          (if within_limit c then read_tokens ?p (tokens (CHR 0x0D # CHR 0x0A # rest))
           else Inl CsvError)"
    using Nil by (intro read_field) simp_all
  also have "read_tokens ?p (tokens (CHR 0x0D # CHR 0x0A # rest)) =
               rbind (read_tokens parse_reset (tokens rest))
                 (\<lambda>recs. Inr ((rd_fields p @ [c]) # recs))"
    using read_record_end [of ?p rest] field_end_cases [of c] by simp
  finally show ?case by simp
next
  case (Cons d ds)
  let ?rest = "CHR '','' # join '','' (map csv_field (d # ds)) @ CHR 0x0D # CHR 0x0A # rest"
  let ?more = "join '','' (map csv_field (d # ds)) @ CHR 0x0D # CHR 0x0A # rest"
  let ?p = "p\<lparr>rd_state := field_end_state c, rd_field := c\<rparr>"
  let ?q = "p\<lparr>rd_fields := rd_fields p @ [c]\<rparr>"
  have more: "?more \<noteq> []" by simp
  have t: "join '','' (map csv_field (c # d # ds)) @ CHR 0x0D # CHR 0x0A # rest =
             csv_field c @ ?rest"
    by simp
  have first: "read_tokens p (tokens (csv_field c @ ?rest)) =
                 (if within_limit c then read_tokens ?p (tokens ?rest) else Inl CsvError)"
    using Cons.prems by (intro read_field) simp_all
  have "read_tokens ?p (tokens ?rest) =
          read_tokens
            (?p\<lparr>rd_fields := rd_fields ?p @ [rd_field ?p], rd_field := [],
                rd_state := START_FIELD\<rparr>)
            (tokens ?more)"
    using tokens_Cons [OF more, of "CHR '',''"] after_field_comma [of ?p] field_end_cases [of c]
    by (simp add: read_Ch)
  also have "?p\<lparr>rd_fields := rd_fields ?p @ [rd_field ?p], rd_field := [],
                rd_state := START_FIELD\<rparr> = ?q"
    using Cons.prems by (cases p) simp
  also have "read_tokens ?q (tokens ?more) =
               (if list_all within_limit (d # ds)
                then rbind (read_tokens parse_reset (tokens rest))
                       (\<lambda>recs. Inr ((rd_fields ?q @ d # ds) # recs))
                else Inl CsvError)"
    using Cons.prems by (intro Cons.IH) simp_all
  finally have "read_tokens ?p (tokens ?rest) =
                  (if list_all within_limit (d # ds)
                   then rbind (read_tokens parse_reset (tokens rest))
                          (\<lambda>recs. Inr ((rd_fields ?q @ d # ds) # recs))
                   else Inl CsvError)" .
  with first show ?case
    unfolding t by simp
qed

lemma csv_field_Nil: "csv_field s = [] \<longleftrightarrow> s = []"
  by (auto simp: csv_field_def)

lemma csv_field_hd:
  "csv_field s \<noteq> [] \<Longrightarrow> hd (csv_field s) \<noteq> CHR 0x0A \<and> hd (csv_field s) \<noteq> CHR 0x0D"
  by (cases s) (auto simp: csv_field_def special_char_def)

lemma join_fields_Nil: "join '','' (map csv_field cells) = [] \<longleftrightarrow> cells = [] \<or> cells = [[]]"
proof (cases cells)
  case Nil
  then show ?thesis by simp
next
  case (Cons c cs)
  then show ?thesis
    by (cases cs) (simp_all add: csv_field_Nil)
qed

lemma join_fields_hd:
  assumes "join '','' (map csv_field cells) \<noteq> []"
  shows "hd (join '','' (map csv_field cells)) \<noteq> CHR 0x0A
       \<and> hd (join '','' (map csv_field cells)) \<noteq> CHR 0x0D"
proof (cases cells)
  case Nil
  with assms show ?thesis by simp
next
  case (Cons c cs)
  show ?thesis
  proof (cases "csv_field c = []")
    case True
    with assms Cons show ?thesis by (cases cs) simp_all
  next
    case False
    then have "hd (join '','' (map csv_field cells)) = hd (csv_field c)"
      using Cons by (cases cs) simp_all
    with csv_field_hd [OF False] show ?thesis by simp
  qed
qed

lemma start_record_char:
  assumes "c \<noteq> CHR 0x0A" and "c \<noteq> CHR 0x0D"
  shows "parse_process_char parse_reset (Ch c) =
           parse_process_char (parse_reset\<lparr>rd_state := START_FIELD\<rparr>) (Ch c)"
  using assms by (simp add: parse_process_char.simps parse_reset_def)

lemma read_record:
  "read_tokens parse_reset (tokens (csv_record cells @ rest)) =
     (if list_all within_limit cells
      then rbind (read_tokens parse_reset (tokens rest)) (\<lambda>recs. Inr (cells # recs))
      else Inl CsvError)"
proof -
  let ?line = "join '','' (map csv_field cells)"
  consider "cells = []" | "cells = [[]]" | "?line \<noteq> []"
    using join_fields_Nil [of cells] by blast
  then show ?thesis
  proof cases
    case 1
    have "parse_process_char parse_reset (Ch CHR 0x0D) = Inr (parse_reset\<lparr>rd_state := EAT_CRNL\<rparr>)"
      by (simp add: parse_process_char.simps parse_reset_def)
    then show ?thesis
      using 1 by (simp add: csv_record_def tokens_CRLF read_Ch eat_LF eat_EOL parse_reset_def)
  next
    case 2
    let ?p = "parse_reset\<lparr>rd_state := IN_QUOTED_FIELD\<rparr>"
    have q: "parse_process_char parse_reset (Ch CHR 0x22) = Inr ?p"
      by (simp add: parse_process_char.simps parse_reset_def expecting_field_def)
    have "csv_record cells @ rest = CHR 0x22 # quoted_text [] @ CHR 0x22 # CHR 0x0D # CHR 0x0A # rest"
      using 2 by (simp add: csv_record_def csv_field_def quoted_text_def)
    then have "read_tokens parse_reset (tokens (csv_record cells @ rest)) =
                 read_tokens ?p (tokens (quoted_text [] @ CHR 0x22 # CHR 0x0D # CHR 0x0A # rest))"
      by (simp add: tokens_Cons read_Ch q)
    also have "\<dots> = (if length (rd_field ?p) + length ([] :: string) \<le> field_limit
                       then read_tokens
                              (?p\<lparr>rd_state := QUOTE_IN_QUOTED_FIELD, rd_field := rd_field ?p @ []\<rparr>)
                              (tokens (CHR 0x0D # CHR 0x0A # rest))
                       else Inl CsvError)"
      by (rule read_quoted) (simp_all add: parse_reset_def)
    also have "\<dots> = read_tokens
                        (?p\<lparr>rd_state := QUOTE_IN_QUOTED_FIELD, rd_field := rd_field ?p @ []\<rparr>)
                        (tokens (CHR 0x0D # CHR 0x0A # rest))"
      by (simp add: parse_reset_def)
    also have "\<dots> = rbind (read_tokens parse_reset (tokens rest)) (\<lambda>recs. Inr ([[]] # recs))"
      by (subst read_record_end) (simp_all add: parse_reset_def)
    finally show ?thesis
      using 2 by (simp add: within_limit_def)
  next
    case 3
    then obtain c cs where cells: "cells = c # cs"
      by (cases cells) auto
    from 3 obtain x more where line: "?line = x # more"
      by (cases ?line) auto
    with join_fields_hd [OF 3] have x: "x \<noteq> CHR 0x0A" "x \<noteq> CHR 0x0D" by simp_all
    let ?text = "?line @ CHR 0x0D # CHR 0x0A # rest"
    let ?p = "parse_reset\<lparr>rd_state := START_FIELD\<rparr>"
    have tx: "?text = x # more @ CHR 0x0D # CHR 0x0A # rest"
      using line by simp
    have "read_tokens parse_reset (tokens ?text) = read_tokens ?p (tokens ?text)"
      unfolding tx using start_record_char [OF x]
      by (simp add: tokens_Cons read_Ch)
    also have "\<dots> = (if list_all within_limit (c # cs)
                       then rbind (read_tokens parse_reset (tokens rest))
                              (\<lambda>recs. Inr ((rd_fields ?p @ c # cs) # recs))
                       else Inl CsvError)"
      unfolding cells by (rule read_cells) (simp_all add: parse_reset_def)
    finally show ?thesis
      using 3 cells by (simp add: csv_record_def Let_def parse_reset_def)
  qed
qed

lemma read_records:
  "read_tokens parse_reset (tokens (concat (map csv_record recs))) =
     (if list_all (list_all within_limit) recs then Inr recs else Inl CsvError)"
proof (induction recs)
  case Nil
  then show ?case by (simp add: parse_reset_def)
next
  case (Cons cells recs)
  then show ?case
    by (simp add: read_record)
qed

lemma csv_reader_records:
  "csv_reader (concat (map csv_record recs)) =
     (if list_all (list_all within_limit) recs then Inr recs else Inl CsvError)"
  by (simp add: csv_reader_def read_records)

section \<open>The files the exporters write\<close>

lemma csv_table_records:
  "csv_table r rows = concat (map csv_record (map fst r # map row_texts rows))"
  by (simp add: csv_table_def row_texts_def comp_def)

lemma py_lines_line:
  assumes "CHR 0x0D \<notin> set l" and "CHR 0x0A \<notin> set l"
  shows "py_lines (l @ CHR 0x0D # CHR 0x0A # rest) = (l @ [CHR 0x0D, CHR 0x0A]) # py_lines rest"
  using assms
proof (induction l)
  case Nil
  then show ?case by (simp add: py_lines_CRLF)
next
  case (Cons x l)
  have x: "x \<noteq> CHR 0x0A" "x \<noteq> CHR 0x0D"
    using Cons.prems by auto
  have "py_lines ((x # l) @ CHR 0x0D # CHR 0x0A # rest) =
          (case py_lines (l @ CHR 0x0D # CHR 0x0A # rest) of
             [] \<Rightarrow> [[x]] | a # as \<Rightarrow> (x # a) # as)"
    using py_lines_char [OF x] by simp
  with Cons show ?case by simp
qed

lemma csv_field_chars: "set (csv_field s) \<subseteq> insert (CHR 0x22) (set s)"
  by (auto simp: csv_field_def split: if_splits)

lemma join_chars: "set (join sep xs) \<subseteq> set sep \<union> \<Union> (set ` set xs)"
  by (induction sep xs rule: join.induct) auto

lemma csv_record_line:
  assumes "\<forall>cell \<in> set cells. CHR 0x0D \<notin> set cell \<and> CHR 0x0A \<notin> set cell"
  shows "\<exists>l. csv_record cells = l @ [CHR 0x0D, CHR 0x0A] \<and> CHR 0x0D \<notin> set l \<and> CHR 0x0A \<notin> set l"
proof -
  let ?line = "join '','' (map csv_field cells)"
  have "set ?line \<subseteq> set '','' \<union> \<Union> (set ` set (map csv_field cells))"
    by (rule join_chars)
  also have "\<dots> \<subseteq> {CHR '','', CHR 0x22} \<union> \<Union> (set ` set cells)"
    using csv_field_chars by fastforce
  finally have "CHR 0x0D \<notin> set ?line \<and> CHR 0x0A \<notin> set ?line"
    using assms by auto
  then show ?thesis
    by (auto simp: csv_record_def Let_def)
qed

lemma py_lines_records:
  assumes "\<forall>cells \<in> set recs. \<forall>cell \<in> set cells. CHR 0x0D \<notin> set cell \<and> CHR 0x0A \<notin> set cell"
  shows "py_lines (concat (map csv_record recs)) = map csv_record recs"
  using assms
proof (induction recs)
  case Nil
  then show ?case by simp
next
  case (Cons cells recs)
  from csv_record_line [of cells] Cons.prems obtain l
    where l: "csv_record cells = l @ [CHR 0x0D, CHR 0x0A]" "CHR 0x0D \<notin> set l" "CHR 0x0A \<notin> set l"
    by auto
  have "py_lines (concat (map csv_record (cells # recs))) =
          py_lines (l @ CHR 0x0D # CHR 0x0A # concat (map csv_record recs))"
    using l(1) by simp
  also have "\<dots> = (l @ [CHR 0x0D, CHR 0x0A]) # py_lines (concat (map csv_record recs))"
    using l(2,3) by (rule py_lines_line)
  finally show ?case
    using Cons l(1) by simp
qed

text \<open>
  C8. When the files give no row for a table, the exporter of that table writes no
  file (the files are as before, so neither an empty nor a header-only file appears)
  and logs a warning. When they give rows, the exporter writes under the output path
  the header record of the first row's keys followed by one record for each row. In
  \<open>run_exports\<close> the two exporters run one after the other: with summary rows and no
  deployment row, the summary file is written, the deployments file is not, and the
  warning is logged. A record ends with CR LF. When no column name and no value
  holds a carriage return or a line feed, the lines of the file are these records: the
  header line and one line for each row; a value that holds a line break is quoted
  inside its record.
\<close>

theorem empty_table_is_not_written:
  "(summary_loop json_files [] = Inr [] \<longrightarrow>
      export_summary_csv json_files output_file w =
        Inr (logger WARNING ''No data to write to summary CSV'' w))
   \<and> (deployments_files_loop json_files [] = Inr [] \<longrightarrow>
      export_deployments_csv json_files output_file w =
        Inr (logger WARNING ''No data to write to deployments CSV'' w))
   \<and> files (logger WARNING msg w) = files w
   \<and> log (logger WARNING msg w) = log w @ [(WARNING, msg)]
   \<and> (summary_loop json_files [] = Inr (r # rs) \<longrightarrow>
      (\<exists>w'. export_summary_csv json_files output_file w = Inr w'
         \<and> files w' = (files w)(output_file \<mapsto> csv_table r (r # rs))))
   \<and> (deployments_files_loop json_files [] = Inr (r # rs) \<longrightarrow>
      (\<exists>w'. export_deployments_csv json_files output_file w = Inr w'
         \<and> files w' = (files w)(output_file \<mapsto> csv_table r (r # rs))))
   \<and> (summary_loop json_files [] = Inr (r # rs) \<and> deployments_files_loop json_files [] = Inr []
      \<longrightarrow>
      (\<exists>w'. run_exports False False json_files summary_file deployments_file w = Inr w'
         \<and> files w' = (files w)(summary_file \<mapsto> csv_table r (r # rs))
         \<and> log w' =
             log w
             @ [(INFO, ''Wrote '' @ str_nat (length (r # rs)) @ '' summary rows to ''
                         @ summary_file),
                (WARNING, ''No data to write to deployments CSV''),
                (INFO, ''Export complete!'')]))
   \<and> ((\<forall>cell \<in> set (concat (map fst r # map row_texts (r # rs))).
          CHR 0x0D \<notin> set cell \<and> CHR 0x0A \<notin> set cell) \<longrightarrow>
        py_lines (csv_table r (r # rs)) =
          csv_record (map fst r) # map (\<lambda>x. csv_record (row_texts x)) (r # rs))"
proof -
  have a: "files (logger l m v) = files v" "log (logger l m v) = log v @ [(l, m)]" for l m v
    by (simp_all add: logger_def)
  have p: "py_lines (csv_table r (r # rs)) =
             csv_record (map fst r) # map (\<lambda>x. csv_record (row_texts x)) (r # rs)"
    if "\<forall>cell \<in> set (concat (map fst r # map row_texts (r # rs))).
          CHR 0x0D \<notin> set cell \<and> CHR 0x0A \<notin> set cell"
  proof -
    have "py_lines (concat (map csv_record (map fst r # map row_texts (r # rs)))) =
            map csv_record (map fst r # map row_texts (r # rs))"
      using that by (intro py_lines_records) auto
    then show ?thesis
      unfolding csv_table_records by (simp add: comp_def)
  qed
  have s: "\<exists>w'. export_summary_csv json_files output_file w = Inr w'
         \<and> files w' = (files w)(output_file \<mapsto> csv_table r (r # rs))"
    if "summary_loop json_files [] = Inr (r # rs)"
    using export_summary_rows [OF that, of output_file w] by (simp add: a)
  have d: "\<exists>w'. export_deployments_csv json_files output_file w = Inr w'
         \<and> files w' = (files w)(output_file \<mapsto> csv_table r (r # rs))"
    if "deployments_files_loop json_files [] = Inr (r # rs)"
    using export_deployments_rows [OF that, of output_file w] by (simp add: a)
  have b: "\<exists>w'. run_exports False False json_files summary_file deployments_file w = Inr w'
         \<and> files w' = (files w)(summary_file \<mapsto> csv_table r (r # rs))
         \<and> log w' =
             log w
             @ [(INFO, ''Wrote '' @ str_nat (length (r # rs)) @ '' summary rows to ''
                         @ summary_file),
                (WARNING, ''No data to write to deployments CSV''),
                (INFO, ''Export complete!'')]"
    if "summary_loop json_files [] = Inr (r # rs)" "deployments_files_loop json_files [] = Inr []"
    using export_summary_rows [OF that(1)] export_deployments_empty [OF that(2)]
    by (simp add: run_exports_def a)
  show ?thesis
    using export_summary_empty export_deployments_empty a s d b p by blast
qed

theorem empty_table_is_not_written_witness:
  "summary_loop [] [] = Inr []
   \<and> export_summary_csv [] ''out/x-summary.csv'' no_world =
       Inr \<lparr>files = Map.empty, log = [(WARNING, ''No data to write to summary CSV'')]\<rparr>
   \<and> deployments_files_loop [Inr doc_no_deployments] [] = Inr []
   \<and> (\<exists>r w'. summary_loop [Inr doc_no_deployments] [] = Inr [r]
         \<and> run_exports False False [Inr doc_no_deployments]
              ''out/x-summary.csv'' ''out/x-deployments.csv'' no_world = Inr w'
         \<and> files w' ''out/x-deployments.csv'' = None
         \<and> files w' ''out/x-summary.csv'' = Some (csv_table r [r])
         \<and> log w' = [(INFO, ''Wrote 1 summary rows to out/x-summary.csv''),
                      (WARNING, ''No data to write to deployments CSV''),
                      (INFO, ''Export complete!'')])
   \<and> summary_loop [Inr doc_no_deployments] [] = Inr [row_no_deployments]
   \<and> py_lines (csv_table row_no_deployments [row_no_deployments]) =
       [csv_record summary_columns, csv_record (row_texts row_no_deployments)]"
proof -
  have c: "summary_loop [Inr doc_no_deployments] [] = Inr (row_no_deployments # [])"
    by (simp add: doc_no_deployments_def row_no_deployments_def summary_defs summary_updates
        summary_items_def)
  have t: "row_texts row_no_deployments =
             [[], ''c4'', ''t4'', [], [], [], [], [], [], [], [], [], [], [], [], [], [], [], [],
              [], [], [], [], [], [], [], [], [], []]"
    by (simp add: row_no_deployments_def summary_items_def postprocessed_items_def
        row_texts_def dict_get_def count_field_def)
  have k: "map fst row_no_deployments = summary_columns"
    by (simp add: row_no_deployments_def summary_items_keys)
  have "\<forall>cell \<in> set (concat (map fst row_no_deployments
            # map row_texts (row_no_deployments # []))).
          CHR 0x0D \<notin> set cell \<and> CHR 0x0A \<notin> set cell"
    by (simp add: t k summary_columns_def)
  with empty_table_is_not_written [of _ _ _ _ row_no_deployments "[]"]
  have l: "py_lines (csv_table row_no_deployments [row_no_deployments]) =
       [csv_record summary_columns, csv_record (row_texts row_no_deployments)]"
    by (simp add: k)
  have e: "summary_loop [] [] = Inr []" by simp
  have 1: "export_summary_csv [] ''out/x-summary.csv'' no_world =
       Inr \<lparr>files = Map.empty, log = [(WARNING, ''No data to write to summary CSV'')]\<rparr>"
    using empty_table_is_not_written [of "[]" "''out/x-summary.csv''" no_world] e
    by (simp add: logger_def no_world_def)
  have d: "deployments_files_loop [Inr doc_no_deployments] [] = Inr []"
    by (simp add: doc_no_deployments_def run_defs)
  have "\<exists>r. summary_loop [Inr doc_no_deployments] [] = Inr [r]"
    by (simp add: doc_no_deployments_def summary_defs)
  then obtain r where r: "summary_loop [Inr doc_no_deployments] [] = Inr (r # [])" by auto
  have n: "str_nat (Suc 0) = ''1''" by code_simp
  from empty_table_is_not_written [of "[Inr doc_no_deployments]" _ no_world _ r "[]"
      "''out/x-summary.csv''" "''out/x-deployments.csv''"] r d
  obtain w' where "run_exports False False [Inr doc_no_deployments]
              ''out/x-summary.csv'' ''out/x-deployments.csv'' no_world = Inr w'"
    "files w' = (files no_world)(''out/x-summary.csv'' \<mapsto> csv_table r [r])"
    "log w' = log no_world @ [(INFO, ''Wrote '' @ str_nat (length [r]) @ '' summary rows to ''
                         @ ''out/x-summary.csv''),
                (WARNING, ''No data to write to deployments CSV''),
                (INFO, ''Export complete!'')]"
    by blast
  then have "run_exports False False [Inr doc_no_deployments]
              ''out/x-summary.csv'' ''out/x-deployments.csv'' no_world = Inr w'
         \<and> files w' ''out/x-deployments.csv'' = None
         \<and> files w' ''out/x-summary.csv'' = Some (csv_table r [r])
         \<and> log w' = [(INFO, ''Wrote 1 summary rows to out/x-summary.csv''),
                      (WARNING, ''No data to write to deployments CSV''),
                      (INFO, ''Export complete!'')]"
    by (simp add: no_world_def n)
  with e 1 d r c l show ?thesis by blast
qed

lemma nat_of_text_snoc: "nat_of_text (s @ [c]) = 10 * nat_of_text s + digit_val c"
  by (simp add: nat_of_text_def)

lemma digit_val_digit_char: "d < 10 \<Longrightarrow> digit_val (digit_char d) = d"
  by (simp add: digit_val_def digit_char_code)

lemma nat_of_text_str_nat: "nat_of_text (str_nat n) = n"
proof (induction n rule: str_nat.induct)
  case (1 n)
  show ?case
  proof (cases "n < 10")
    case True
    then show ?thesis
      by (subst str_nat.simps) (simp add: nat_of_text_def digit_val_digit_char)
  next
    case False
    with 1 show ?thesis
      by (subst str_nat.simps) (simp add: nat_of_text_snoc digit_val_digit_char)
  qed
qed

lemma str_nat_hd: "\<exists>c cs. str_nat n = c # cs \<and> c \<noteq> CHR ''-''"
proof (induction n rule: str_nat.induct)
  case (1 n)
  show ?case
  proof (cases "n < 10")
    case True
    have "digit_char n \<noteq> CHR ''-''"
    proof
      assume "digit_char n = CHR ''-''"
      then have "(of_char (digit_char n) :: nat) = of_char CHR ''-''" by simp
      with True show False by (simp add: digit_char_code)
    qed
    with True show ?thesis
      by (subst str_nat.simps) simp
  next
    case False
    with 1 obtain c cs where "str_nat (n div 10) = c # cs" "c \<noteq> CHR ''-''" by auto
    with False show ?thesis
      by (subst str_nat.simps) simp
  qed
qed

lemma int_of_text_str_int: "int_of_text (str_int i) = i"
proof (cases "i < 0")
  case True
  then show ?thesis
    by (simp add: int_of_text_def str_int_def nat_of_text_str_nat)
next
  case False
  obtain c cs where s: "str_nat (nat i) = c # cs" "c \<noteq> CHR ''-''"
    using str_nat_hd by blast
  have "nat_of_text (c # cs) = nat i"
    using nat_of_text_str_nat [of "nat i"] s by simp
  with False s show ?thesis
    by (simp add: int_of_text_def str_int_def)
qed

lemma csv_reader_table:
  "csv_reader (csv_table r rows) =
     (if list_all (list_all within_limit) (map fst r # map row_texts rows)
      then Inr (map fst r # map row_texts rows)
      else Inl CsvError)"
  unfolding csv_table_records by (rule csv_reader_records)

lemma deployment_columns_within_limit: "list_all within_limit deployment_columns"
  by (simp add: deployment_columns_def within_limit_def field_limit_def)

lemma mixed_rows: "deployments_files_loop [Inr doc_mixed] [] = Inr [row_number, row_string]"
  by (simp add: doc_mixed_def row_number_def row_string_def run_mixed_def run_defs)

lemma long_rows: "deployments_files_loop [Inr doc_long] [] = Inr [row_long]"
  by (simp add: doc_long_def row_long_def run_mixed_def run_defs)

lemma str_int_7: "str_int 7 = ''7''"
  by code_simp

lemma mixed_texts:
  "row_texts row_number =
     [[], ''c5'', [], ''t5'', ''t5'', [], [], ''x'', ''7'', [], [], [], [], [], [], [], [], [], []]"
  "row_texts row_string = row_texts row_number"
  by (simp_all add: row_texts_def row_number_def row_string_def run_mixed_def deployment_row_def
      dict_get_def str_int_7)

lemma mixed_within_limit: "list_all within_limit (row_texts row_number)"
  by (simp add: mixed_texts(1) within_limit_def field_limit_def)

lemma full_texts:
  "row_texts row_full =
     [[], ''c5'', [], ''t5'', ''t5'', [], [], replicate field_limit CHR ''a'', [], [], [],
      [], [], [], [], [], [], [], []]"
  by (simp add: row_texts_def row_full_def run_mixed_def deployment_row_def dict_get_def)

lemma full_within_limit: "list_all within_limit (row_texts row_full)"
proof -
  have "within_limit (replicate field_limit CHR ''a'')"
    by (simp add: within_limit_def)
  moreover have "within_limit []" "within_limit ''c5''" "within_limit ''t5''"
    by (simp_all add: within_limit_def field_limit_def)
  ultimately show ?thesis
    unfolding full_texts by simp
qed

lemma long_texts:
  "row_texts row_long =
     [[], ''c5'', [], ''t5'', ''t5'', [], [], replicate (Suc field_limit) CHR ''a'', [], [], [],
      [], [], [], [], [], [], [], []]"
  by (simp add: row_texts_def row_long_def run_mixed_def deployment_row_def dict_get_def)

section \<open>Writing the deployments table and reading it back\<close>

text \<open>
  C9, as the code has it. For a non-empty list of rows with the columns of the
  deployments table, as the rows \<open>export_deployments_csv\<close> collects are,
  \<open>write_csv\<close> stores the text of the table under the output path. When no text of
  a row is longer than \<open>field_limit\<close>, reading that text back gives the header and,
  for each row in order, the tuple of the texts of its values: a string as it is, an
  int as its decimal text, from which the int is recovered, null as the empty text.
  When some text is longer, reading the table back raises \<^verbatim>\<open>csv.Error\<close>.
\<close>

theorem deployments_csv_roundtrip:
  assumes "\<forall>x \<in> set (r # rs). map fst x = deployment_columns"
  shows "write_csv output_file r (r # rs) w =
           Inr (w\<lparr>files := (files w)(output_file \<mapsto> csv_table r (r # rs))\<rparr>)
       \<and> csv_reader (csv_table r (r # rs)) =
           (if list_all (list_all within_limit) (map row_texts (r # rs))
            then Inr (deployment_columns # map row_texts (r # rs))
            else Inl CsvError)
       \<and> row_texts [(k, JStr s)] = [s]
       \<and> row_texts [(k, JInt i)] = [str_int i] \<and> int_of_text (str_int i) = i
       \<and> row_texts [(k, JNull)] = [[]]
       \<and> (deployments_files_loop json_files [] = Inr rows \<longrightarrow>
            (\<forall>x \<in> set rows. map fst x = deployment_columns))"
proof -
  have e: "\<forall>x \<in> set rows. map fst x = deployment_columns"
    if "deployments_files_loop json_files [] = Inr rows"
    using deployments_files_loop_Inr [OF that] by (auto simp: triple_row_keys)
  have "map fst r = deployment_columns"
    using assms by simp
  then have "csv_reader (csv_table r (r # rs)) =
               (if list_all (list_all within_limit) (map row_texts (r # rs))
                then Inr (deployment_columns # map row_texts (r # rs))
                else Inl CsvError)"
    using csv_reader_table [of r "r # rs"] deployment_columns_within_limit by simp
  moreover have "write_csv output_file r (r # rs) w =
           Inr (w\<lparr>files := (files w)(output_file \<mapsto> csv_table r (r # rs))\<rparr>)"
    using write_csv_same_keys [OF deployment_columns_distinct assms, of output_file w]
      \<open>map fst r = deployment_columns\<close>
    by (simp add: csv_table_def)
  moreover have "row_texts [(k, JStr s)] = [s]" "row_texts [(k, JInt i)] = [str_int i]"
    "row_texts [(k, JNull)] = [[]]"
    by (simp_all add: row_texts_def)
  ultimately show ?thesis
    using e int_of_text_str_int [of i] by blast
qed

theorem deployments_csv_roundtrip_witness:
  "map fst row_number = deployment_columns \<and> map fst row_string = deployment_columns
   \<and> deployments_files_loop [Inr doc_mixed] [] = Inr [row_number, row_string]
   \<and> csv_reader (csv_table row_number [row_number, row_string]) =
       Inr [deployment_columns,
            [[], ''c5'', [], ''t5'', ''t5'', [], [], ''x'', ''7'', [], [], [], [], [], [], [],
             [], [], []],
            [[], ''c5'', [], ''t5'', ''t5'', [], [], ''x'', ''7'', [], [], [], [], [], [], [],
             [], [], []]]
   \<and> map fst row_long = deployment_columns
   \<and> deployments_files_loop [Inr doc_long] [] = Inr [row_long]
   \<and> length (row_texts row_long ! 7) = Suc field_limit
   \<and> csv_reader (csv_table row_long [row_long]) = Inl CsvError
   \<and> map fst row_full = deployment_columns
   \<and> length (row_texts row_full ! 7) = field_limit
   \<and> csv_reader (csv_table row_full [row_full]) = Inr [deployment_columns, row_texts row_full]"
proof -
  have k: "\<forall>x \<in> set (row_number # [row_string]). map fst x = deployment_columns"
    by (simp add: row_number_def row_string_def deployment_row_def deployment_columns_def)
  have "csv_reader (csv_table row_number (row_number # [row_string])) =
          (if list_all (list_all within_limit) (map row_texts (row_number # [row_string]))
           then Inr (deployment_columns # map row_texts (row_number # [row_string]))
           else Inl CsvError)"
    using deployments_csv_roundtrip [OF k] by blast
  then have a: "csv_reader (csv_table row_number [row_number, row_string]) =
                  Inr [deployment_columns, row_texts row_number, row_texts row_string]"
    using mixed_within_limit mixed_texts(2) by simp
  have l: "\<forall>x \<in> set (row_long # []). map fst x = deployment_columns"
    by (simp add: row_long_def deployment_row_def deployment_columns_def)
  have "csv_reader (csv_table row_long (row_long # [])) =
          (if list_all (list_all within_limit) (map row_texts (row_long # []))
           then Inr (deployment_columns # map row_texts (row_long # []))
           else Inl CsvError)"
    using deployments_csv_roundtrip [OF l] by blast
  then have b: "csv_reader (csv_table row_long [row_long]) = Inl CsvError"
    using long_texts by (simp add: within_limit_def)
  have m: "\<forall>x \<in> set (row_full # []). map fst x = deployment_columns"
    by (simp add: row_full_def deployment_row_def deployment_columns_def)
  have "csv_reader (csv_table row_full (row_full # [])) =
          (if list_all (list_all within_limit) (map row_texts (row_full # []))
           then Inr (deployment_columns # map row_texts (row_full # []))
           else Inl CsvError)"
    using deployments_csv_roundtrip [OF m] by blast
  then have c: "csv_reader (csv_table row_full [row_full]) =
                  Inr [deployment_columns, row_texts row_full]"
    using full_within_limit by simp
  have n: "length (row_texts row_long ! 7) = Suc field_limit"
    "length (row_texts row_full ! 7) = field_limit"
    by (simp_all add: long_texts full_texts)
  from a k l m mixed_rows long_rows mixed_texts have
    "map fst row_number = deployment_columns \<and> map fst row_string = deployment_columns
     \<and> deployments_files_loop [Inr doc_mixed] [] = Inr [row_number, row_string]
     \<and> csv_reader (csv_table row_number [row_number, row_string]) =
         Inr [deployment_columns,
              [[], ''c5'', [], ''t5'', ''t5'', [], [], ''x'', ''7'', [], [], [], [], [], [], [],
               [], [], []],
              [[], ''c5'', [], ''t5'', ''t5'', [], [], ''x'', ''7'', [], [], [], [], [], [], [],
               [], [], []]]
     \<and> map fst row_long = deployment_columns
     \<and> deployments_files_loop [Inr doc_long] [] = Inr [row_long]
     \<and> map fst row_full = deployment_columns"
    by simp
  with b c n show ?thesis
    by blast
qed

text \<open>
  C9 as stated fails: the types of the values are not recovered. The two rows of
  \<open>doc_mixed\<close> differ (the number 7 against the string \<^verbatim>\<open>7\<close>, null against the
  empty string), the table written for them is the table of the first row written
  twice, and reading it back gives the same tuple of texts twice. Nor is the text of a
  number the text it had in the document: the JSON integer \<^verbatim>\<open>-0\<close> is loaded as the
  int 0 and written as \<^verbatim>\<open>0\<close>.
\<close>

theorem roundtrip_types_counterexample:
  "deployments_files_loop [Inr doc_mixed] [] = Inr [row_number, row_string]
   \<and> row_number \<noteq> row_string
   \<and> map_of row_number ''total_pods'' = Some (JInt 7)
   \<and> map_of row_string ''total_pods'' = Some (JStr ''7'')
   \<and> map_of row_number ''nodes_used'' = Some JNull
   \<and> map_of row_string ''nodes_used'' = Some (JStr [])
   \<and> csv_table row_number [row_number, row_string] =
       csv_table row_number [row_number, row_number]
   \<and> csv_reader (csv_table row_number [row_number, row_string]) =
       Inr [deployment_columns, row_texts row_number, row_texts row_number]
   \<and> int_of_text ''-0'' = 0
   \<and> row_texts [(''total_pods'', JInt (int_of_text ''-0''))] = [''0'']
   \<and> ''0'' \<noteq> ''-0''"
proof -
  have z: "int_of_text ''-0'' = 0"
    by (simp add: int_of_text_def nat_of_text_def digit_val_def)
  have z': "str_int 0 = ''0''"
    by code_simp
  have d: "row_number \<noteq> row_string"
    "map_of row_number ''total_pods'' = Some (JInt 7)"
    "map_of row_string ''total_pods'' = Some (JStr ''7'')"
    "map_of row_number ''nodes_used'' = Some JNull"
    "map_of row_string ''nodes_used'' = Some (JStr [])"
    by (simp_all add: row_number_def row_string_def deployment_row_def dict_get_def)
  have t: "csv_table row_number [row_number, row_string] =
             csv_table row_number [row_number, row_number]"
    using mixed_texts(2) by (simp add: csv_table_def row_texts_def)
  have k: "map fst row_number = deployment_columns"
    by (simp add: row_number_def deployment_row_def deployment_columns_def)
  have "csv_reader (csv_table row_number [row_number, row_number]) =
          Inr [deployment_columns, row_texts row_number, row_texts row_number]"
    using csv_reader_table [of row_number "[row_number, row_number]"] k
      deployment_columns_within_limit mixed_within_limit
    by simp
  with mixed_rows d t z z' show ?thesis
    by (simp add: row_texts_def)
qed

end
